theory Spec2Isabelle
  imports Complex_Main "HOL-Library.Char_ord" "HOL-Library.List_Lexorder" "HOL-Library.Multiset"
begin

section \<open>Telco churn notebook: data model\<close>

text \<open>
  The notebook \<^verbatim>\<open>class1_code.ipynb\<close> is a linear script of calls into pandas and
  scikit-learn. Each call is embedded as a function that computes what the library call
  computes on the data the notebook hands to it. Exceptions are values of
  \<open>py_error\<close>, returned on the left of a sum.
\<close>

datatype py_error = FileNotFoundError | KeyError | IndexError | ValueError | NotFittedError

text \<open>
  An entry of a numeric column is a \<^verbatim>\<open>float64\<close>: a finite number, plus infinity or
  minus infinity (\<^verbatim>\<open>pd.read_csv\<close> and \<^verbatim>\<open>pd.to_numeric\<close> read the text \<^verbatim>\<open>inf\<close> as
  infinity), or NaN. A finite number is idealised as a real number, so that rounding
  and overflow are not modelled; a NaN, which pandas takes for a missing entry, is
  \<open>None\<close>. The order is the one of the numbers, with the infinities at the two ends.
\<close>

datatype float64 = Finite real | PosInf | NegInf

instantiation float64 :: linorder
begin

fun less_eq_float64 :: "float64 \<Rightarrow> float64 \<Rightarrow> bool" where
  "less_eq_float64 NegInf y = True"
| "less_eq_float64 x PosInf = True"
| "less_eq_float64 (Finite a) (Finite b) = (a \<le> b)"
| "less_eq_float64 x y = False"

definition less_float64 :: "float64 \<Rightarrow> float64 \<Rightarrow> bool" where
  "less_float64 x y \<longleftrightarrow> x \<le> y \<and> \<not> y \<le> x"

instance
proof
  fix x y z :: float64
  show "x < y \<longleftrightarrow> x \<le> y \<and> \<not> y \<le> x"
    by (rule less_float64_def)
  show "x \<le> x"
    by (cases x) simp_all
  show "x \<le> y \<Longrightarrow> y \<le> z \<Longrightarrow> x \<le> z"
    by (cases x; cases y; cases z) simp_all
  show "x \<le> y \<Longrightarrow> y \<le> x \<Longrightarrow> x = y"
    by (cases x; cases y) simp_all
  show "x \<le> y \<or> y \<le> x"
    by (cases x; cases y) auto
qed

end

text \<open>
  The sum of two entries is NaN when they are the two infinities; half of an infinity
  is that infinity.
\<close>

fun float_add :: "float64 \<Rightarrow> float64 \<Rightarrow> float64 option" where
  "float_add (Finite a) (Finite b) = Some (Finite (a + b))"
| "float_add PosInf NegInf = None"
| "float_add NegInf PosInf = None"
| "float_add PosInf y = Some PosInf"
| "float_add x PosInf = Some PosInf"
| "float_add NegInf y = Some NegInf"
| "float_add x NegInf = Some NegInf"

fun float_half :: "float64 \<Rightarrow> float64" where
  "float_half (Finite a) = Finite (a / 2)"
| "float_half PosInf = PosInf"
| "float_half NegInf = NegInf"

text \<open>The number an entry holds, when it is neither NaN nor an infinity.\<close>

fun finite_value :: "float64 option \<Rightarrow> real option" where
  "finite_value (Some (Finite v)) = Some v"
| "finite_value x = None"

definition is_inf :: "float64 option \<Rightarrow> bool" where
  "is_inf x \<longleftrightarrow> x = Some PosInf \<or> x = Some NegInf"

text \<open>
  A column read from the CSV file has a numeric dtype (\<^verbatim>\<open>int64\<close> or
  \<^verbatim>\<open>float64\<close>) or the dtype \<^verbatim>\<open>object\<close> (text, where a missing entry is NaN as
  well); a column of booleans is not modelled. A data frame is the list of its named
  columns, in column order; row \<open>i\<close> is position \<open>i\<close> of every column.
\<close>

datatype column = NumCol "float64 option list" | ObjCol "string option list"

type_synonym dataframe = "(string \<times> column) list"

fun col_len :: "column \<Rightarrow> nat" where
  "col_len (NumCol xs) = length xs"
| "col_len (ObjCol ss) = length ss"

definition columns :: "dataframe \<Rightarrow> string list" where
  "columns df = map fst df"

definition nrows :: "dataframe \<Rightarrow> nat" where
  "nrows df = (case df of [] \<Rightarrow> 0 | (_, c) # _ \<Rightarrow> col_len c)"

text \<open>\<^verbatim>\<open>df[name]\<close> raises KeyError when there is no such column.\<close>

definition getitem :: "dataframe \<Rightarrow> string \<Rightarrow> py_error + column" where
  "getitem df name = (case map_of df name of None \<Rightarrow> Inl KeyError | Some c \<Rightarrow> Inr c)"

text \<open>
  \<^verbatim>\<open>df[name] = series\<close> replaces the column where it stands, or appends a new column
  when the name is new.
\<close>

definition setitem :: "dataframe \<Rightarrow> string \<Rightarrow> column \<Rightarrow> dataframe" where
  "setitem df name c =
     (if name \<in> set (columns df)
      then map (\<lambda>(n, old). if n = name then (n, c) else (n, old)) df
      else df @ [(name, c)])"

text \<open>\<^verbatim>\<open>df.drop(name, axis=1)\<close> raises KeyError when there is no such column.\<close>

definition drop_column :: "dataframe \<Rightarrow> string \<Rightarrow> py_error + dataframe" where
  "drop_column df name =
     (if name \<in> set (columns df) then Inr (filter (\<lambda>(n, _). n \<noteq> name) df)
      else Inl KeyError)"

section \<open>The loader\<close>

text \<open>
  The file system maps a path to the table stored there; \<^verbatim>\<open>pd.read_csv\<close> raises
  FileNotFoundError on a path that does not resolve. What a cell prints is a list of
  lines; a line that formats a count carries the count, and the blank line a string
  starts with is left out.
\<close>

datatype line = Text string | TextNat string nat

type_synonym 'a cell = "(py_error + 'a) \<times> line list"

definition read_csv :: "(string \<rightharpoonup> dataframe) \<Rightarrow> string \<Rightarrow> py_error + dataframe" where
  "read_csv fs path = (case fs path of None \<Rightarrow> Inl FileNotFoundError | Some df \<Rightarrow> Inr df)"

text \<open>
  \<^verbatim>\<open>
  try:
      df = pd.read_csv('class1_dataset.csv')
  except FileNotFoundError:
      print("ERROR: 'class1_dataset.csv' not found. ...")
      raise
  print("First 5 rows of the dataset:")
  \<close>
\<close>

definition load :: "(string \<rightharpoonup> dataframe) \<Rightarrow> dataframe cell" where
  "load fs =
     (case read_csv fs ''class1_dataset.csv'' of
        Inl FileNotFoundError \<Rightarrow>
          (Inl FileNotFoundError,
           [Text ''ERROR: 'class1_dataset.csv' not found. Please download it and place it in the correct directory.''])
      | Inl e \<Rightarrow> (Inl e, [])
      | Inr df \<Rightarrow> (Inr df, [Text ''First 5 rows of the dataset:'']))"

section \<open>The cleaner\<close>

text \<open>
  \<^verbatim>\<open>pd.to_numeric(series, errors='coerce')\<close>: a numeric column is returned as it is; in a
  text column every entry is parsed, and an entry that does not parse becomes NaN.
  The parser of a text entry is the library's and is a parameter \<open>parse\<close> here.
\<close>

fun to_numeric :: "(string \<Rightarrow> float64 option) \<Rightarrow> column \<Rightarrow> float64 option list" where
  "to_numeric parse (NumCol xs) = xs"
| "to_numeric parse (ObjCol ss) =
     map (\<lambda>s. case s of None \<Rightarrow> None | Some t \<Rightarrow> parse t) ss"

definition isnull_sum :: "'a option list \<Rightarrow> nat" where
  "isnull_sum xs = length (filter (\<lambda>x. x = None) xs)"

definition dropna :: "'a option list \<Rightarrow> 'a list" where
  "dropna xs = map the (filter (\<lambda>x. x \<noteq> None) xs)"

text \<open>
  \<^verbatim>\<open>series.median()\<close> skips NaN; it is the middle value of the sorted entries, or the
  mean of the two middle values, and NaN when no entry is left. The mean of the two
  middle values is NaN when they are minus infinity and plus infinity.
\<close>

definition median :: "float64 option list \<Rightarrow> float64 option" where
  "median xs =
     (let s = sort (dropna xs); n = length s
      in if n = 0 then None
         else if odd n then Some (s ! (n div 2))
         else map_option float_half (float_add (s ! (n div 2 - 1)) (s ! (n div 2))))"

text \<open>
  A median in the specification's sense: at least half of the entries are at most
  \<open>m\<close>, and at least half of them are at least \<open>m\<close>.
\<close>

definition is_median :: "float64 \<Rightarrow> float64 list \<Rightarrow> bool" where
  "is_median m vs \<longleftrightarrow>
     length vs \<le> 2 * length (filter (\<lambda>v. v \<le> m) vs)
     \<and> length vs \<le> 2 * length (filter (\<lambda>v. m \<le> v) vs)"

text \<open>\<^verbatim>\<open>series.fillna(value)\<close>; filling with NaN leaves the NaN entries.\<close>

definition fillna :: "'a option list \<Rightarrow> 'a option \<Rightarrow> 'a option list" where
  "fillna xs v = map (\<lambda>x. case x of None \<Rightarrow> v | Some y \<Rightarrow> Some y) xs"

text \<open>
  \<^verbatim>\<open>series.map({'No': 0, 'Yes': 1})\<close> looks every entry up in the dictionary; an entry
  that is not a key becomes NaN. No number is a key of this dictionary.
\<close>

definition churn_dict :: "string \<rightharpoonup> float64" where
  "churn_dict = [''No'' \<mapsto> Finite 0, ''Yes'' \<mapsto> Finite 1]"

fun series_map :: "(string \<rightharpoonup> float64) \<Rightarrow> column \<Rightarrow> float64 option list" where
  "series_map d (ObjCol ss) = map (\<lambda>s. case s of None \<Rightarrow> None | Some t \<Rightarrow> d t) ss"
| "series_map d (NumCol xs) = map (\<lambda>_. None) xs"

text \<open>
  The cleaning cell:
  \<^verbatim>\<open>
  df = df.drop('customerID', axis=1)
  df['TotalCharges'] = pd.to_numeric(df['TotalCharges'], errors='coerce')
  print(f"\nNaNs in TotalCharges after conversion: {df['TotalCharges'].isnull().sum()}")
  df['TotalCharges'] = df['TotalCharges'].fillna(df['TotalCharges'].median())
  df['Churn'] = df['Churn'].map({'No': 0, 'Yes': 1})
  print("\nCleaned dataset info:")
  \<close>
\<close>

definition clean :: "(string \<Rightarrow> float64 option) \<Rightarrow> dataframe \<Rightarrow> dataframe cell" where
  "clean parse df =
     (case drop_column df ''customerID'' of Inl e \<Rightarrow> (Inl e, [])
      | Inr df1 \<Rightarrow>
     (case getitem df1 ''TotalCharges'' of Inl e \<Rightarrow> (Inl e, [])
      | Inr raw \<Rightarrow>
        let tc = to_numeric parse raw;
            df2 = setitem df1 ''TotalCharges'' (NumCol tc);
            out = [TextNat ''NaNs in TotalCharges after conversion: '' (isnull_sum tc)];
            df3 = setitem df2 ''TotalCharges'' (NumCol (fillna tc (median tc)))
        in (case getitem df3 ''Churn'' of Inl e \<Rightarrow> (Inl e, out)
            | Inr churn \<Rightarrow>
                (Inr (setitem df3 ''Churn'' (NumCol (series_map churn_dict churn))),
                 out @ [Text ''Cleaned dataset info:'']))))"

text \<open>
  A parser of unsigned decimal integers and of the two infinities, to evaluate the
  cleaner on concrete tables.
\<close>

definition digit_val :: "char \<Rightarrow> nat option" where
  "digit_val c = (let k = of_char c :: nat in if 48 \<le> k \<and> k \<le> 57 then Some (k - 48) else None)"

fun parse_digits :: "nat \<Rightarrow> string \<Rightarrow> nat option" where
  "parse_digits acc [] = Some acc"
| "parse_digits acc (c # cs) =
     (case digit_val c of None \<Rightarrow> None | Some d \<Rightarrow> parse_digits (10 * acc + d) cs)"

definition parse_decimal :: "string \<Rightarrow> float64 option" where
  "parse_decimal s =
     (if s = ''inf'' then Some PosInf
      else if s = ''-inf'' then Some NegInf
      else if s = [] then None
      else map_option (\<lambda>n. Finite (real n)) (parse_digits 0 s))"

section \<open>Evaluation: \<^verbatim>\<open>accuracy_score\<close> and \<^verbatim>\<open>confusion_matrix\<close>\<close>

text \<open>
  Both metrics first check their two label vectors (\<^verbatim>\<open>_check_targets\<close>): vectors of
  different length are refused, and so is a vector that holds a number which is not an
  integer (a \<^verbatim>\<open>continuous\<close> target).
\<close>

definition integer_valued :: "real \<Rightarrow> bool" where
  "integer_valued x \<longleftrightarrow> of_int \<lfloor>x\<rfloor> = x"

definition check_targets :: "real list \<Rightarrow> real list \<Rightarrow> py_error + unit" where
  "check_targets y_true y_pred =
     (if length y_true \<noteq> length y_pred then Inl ValueError
      else if \<exists>x \<in> set (y_true @ y_pred). \<not> integer_valued x then Inl ValueError
      else Inr ())"

text \<open>
  \<^verbatim>\<open>accuracy_score(y_test, y_pred)\<close> is the fraction of positions where the two label
  vectors agree; the mean of an empty vector is NaN.
\<close>

definition accuracy_score :: "real list \<Rightarrow> real list \<Rightarrow> py_error + real option" where
  "accuracy_score y_true y_pred =
     (case check_targets y_true y_pred of Inl e \<Rightarrow> Inl e
      | Inr _ \<Rightarrow>
          if y_true = [] then Inr None
          else Inr (Some (real (length (filter (\<lambda>x. fst x = snd x) (zip y_true y_pred)))
                           / real (length y_true))))"

text \<open>
  \<^verbatim>\<open>confusion_matrix(y_test, y_pred)\<close>:
  \<^verbatim>\<open>
  labels = unique_labels(y_true, y_pred)
  n_labels = labels.size
  label_to_ind = {y: x for x, y in enumerate(labels)}
  y_pred = np.array([label_to_ind.get(x, n_labels + 1) for x in y_pred])
  y_true = np.array([label_to_ind.get(x, n_labels + 1) for x in y_true])
  cm = coo_matrix((sample_weight, (y_true, y_pred)), shape=(n_labels, n_labels)).toarray()
  \<close>
  The labels are the sorted distinct values that occur in either vector, so the matrix
  has as many rows and columns as there are such values. Every row of the test
  partition adds one to the cell at (position of its actual label, position of its
  predicted label).
\<close>

definition unique_labels :: "real list \<Rightarrow> real list \<Rightarrow> real list" where
  "unique_labels y_true y_pred = sort (remdups (y_true @ y_pred))"

fun index_of :: "'a list \<Rightarrow> 'a \<Rightarrow> nat" where
  "index_of [] v = 0"
| "index_of (c # cs) v = (if c = v then 0 else Suc (index_of cs v))"

definition add_entry :: "nat list list \<Rightarrow> nat \<times> nat \<Rightarrow> nat list list" where
  "add_entry cm ij = (case ij of (i, j) \<Rightarrow> cm[i := (cm ! i)[j := cm ! i ! j + 1]])"

definition confusion_matrix :: "real list \<Rightarrow> real list \<Rightarrow> py_error + nat list list" where
  "confusion_matrix y_true y_pred =
     (case check_targets y_true y_pred of Inl e \<Rightarrow> Inl e
      | Inr _ \<Rightarrow>
          let labels = unique_labels y_true y_pred;
              n_labels = length labels;
              ind_pred = map (index_of labels) y_pred;
              ind_true = map (index_of labels) y_true
          in Inr (foldl add_entry (replicate n_labels (replicate n_labels 0))
                    (zip ind_true ind_pred)))"

text \<open>
  The four counts as the specification names them, for labels 0 (no churn) and 1
  (churn): a row of the test partition is a true negative when it is actual 0 and
  predicted 0, a false positive when actual 0 and predicted 1, a false negative when
  actual 1 and predicted 0, a true positive when actual 1 and predicted 1.
\<close>

definition count_rows :: "real list \<Rightarrow> real list \<Rightarrow> real \<Rightarrow> real \<Rightarrow> nat" where
  "count_rows y_true y_pred actual predicted =
     length (filter (\<lambda>x. fst x = actual \<and> snd x = predicted) (zip y_true y_pred))"

definition TN :: "real list \<Rightarrow> real list \<Rightarrow> nat" where
  "TN y_true y_pred = count_rows y_true y_pred 0 0"

definition FP :: "real list \<Rightarrow> real list \<Rightarrow> nat" where
  "FP y_true y_pred = count_rows y_true y_pred 0 1"

definition FN :: "real list \<Rightarrow> real list \<Rightarrow> nat" where
  "FN y_true y_pred = count_rows y_true y_pred 1 0"

definition TP :: "real list \<Rightarrow> real list \<Rightarrow> nat" where
  "TP y_true y_pred = count_rows y_true y_pred 1 1"

section \<open>The splitter\<close>

text \<open>
  The pseudo-random generator behind \<^verbatim>\<open>random_state=42\<close> is the library's. It is a
  state of some type \<open>'r\<close> with the three operations the splitter calls: seeding,
  \<^verbatim>\<open>rng.choice(inds, size=k, replace=False)\<close> and \<^verbatim>\<open>rng.permutation(n)\<close>; each call
  returns its result and the next state.
\<close>

record 'r rng =
  seed :: "nat \<Rightarrow> 'r"
  choice :: "'r \<Rightarrow> nat list \<Rightarrow> nat \<Rightarrow> nat list \<times> 'r"
  permutation :: "'r \<Rightarrow> nat \<Rightarrow> nat list \<times> 'r"

text \<open>
  What the splitter relies on: a choice of \<open>k\<close> among distinct candidates returns
  \<open>k\<close> distinct candidates, and a permutation of \<open>n\<close> is a rearrangement of
  \<open>0, \<dots>, n - 1\<close>.
\<close>

definition valid_rng :: "'r rng \<Rightarrow> bool" where
  "valid_rng g \<longleftrightarrow>
     (\<forall>r inds k. distinct inds \<and> k \<le> length inds \<longrightarrow>
        length (fst (choice g r inds k)) = k
        \<and> distinct (fst (choice g r inds k))
        \<and> set (fst (choice g r inds k)) \<subseteq> set inds)
     \<and> (\<forall>r n. mset (fst (permutation g r n)) = mset [0..<n])"

text \<open>A generator to run the splitter on concrete tables: its state counts the calls.\<close>

definition counting_rng :: "nat rng" where
  "counting_rng =
     \<lparr>seed = (\<lambda>s. s),
      choice = (\<lambda>r inds k. (take k inds, Suc r)),
      permutation = (\<lambda>r n. (rev [0..<n], Suc r))\<rparr>"

text \<open>
  \<^verbatim>\<open>_validate_shuffle_split\<close> with \<^verbatim>\<open>test_size=0.2\<close> and no train size:
  \<^verbatim>\<open>n_test = ceil(0.2 * n_samples)\<close>, \<^verbatim>\<open>n_train = n_samples - n_test\<close>, and an empty
  training set is refused.
\<close>

definition validate_shuffle_split :: "nat \<Rightarrow> py_error + nat \<times> nat" where
  "validate_shuffle_split n_samples =
     (let n_test = nat \<lceil>0.2 * real n_samples\<rceil>; n_train = n_samples - n_test
      in if n_train = 0 then Inl ValueError else Inr (n_train, n_test))"

text \<open>
  \<^verbatim>\<open>classes, y_indices = np.unique(y, return_inverse=True)\<close>: the classes are the sorted
  distinct labels and every row gets the position of its label among them. A missing
  label is refused (\<^verbatim>\<open>Input contains NaN\<close>), and so is an infinite one
  (\<^verbatim>\<open>Input contains infinity\<close>).
\<close>

definition unique_inverse :: "'a::linorder list \<Rightarrow> nat \<times> nat list" where
  "unique_inverse vs = (let classes = sort (remdups vs) in (length classes, map (index_of classes) vs))"

fun label_classes :: "column \<Rightarrow> py_error + nat \<times> nat list" where
  "label_classes (NumCol ys) =
     (if \<exists>y \<in> set ys. y = None \<or> is_inf y then Inl ValueError
      else Inr (unique_inverse (map the ys)))"
| "label_classes (ObjCol ss) =
     (if None \<in> set ss then Inl ValueError else Inr (unique_inverse (map the ss)))"

text \<open>
  \<^verbatim>\<open>
  def _approximate_mode(class_counts, n_draws, rng):
      continuous = class_counts / class_counts.sum() * n_draws
      floored = np.floor(continuous)
      need_to_add = int(n_draws - floored.sum())
      if need_to_add > 0:
          remainder = continuous - floored
          values = np.sort(np.unique(remainder))[::-1]
          for value in values:
              (inds,) = np.where(remainder == value)
              add_now = min(len(inds), need_to_add)
              inds = rng.choice(inds, size=add_now, replace=False)
              floored[inds] += 1
              need_to_add -= add_now
              if need_to_add == 0:
                  break
      return floored.astype(int)
  \<close>
\<close>

fun add_remainders ::
  "'r rng \<Rightarrow> real list \<Rightarrow> real list \<Rightarrow> int list \<Rightarrow> nat \<Rightarrow> 'r \<Rightarrow> int list \<times> 'r" where
  "add_remainders g remainder [] floored need_to_add r = (floored, r)"
| "add_remainders g remainder (v # values) floored need_to_add r =
     (let inds = filter (\<lambda>i. remainder ! i = v) [0..<length remainder];
          add_now = min (length inds) need_to_add;
          (chosen, r') = choice g r inds add_now;
          floored' = map (\<lambda>i. if i \<in> set chosen then floored ! i + 1 else floored ! i)
                       [0..<length floored];
          need_to_add' = need_to_add - add_now
      in if need_to_add' = 0 then (floored', r')
         else add_remainders g remainder values floored' need_to_add' r')"

definition approximate_mode :: "'r rng \<Rightarrow> int list \<Rightarrow> nat \<Rightarrow> 'r \<Rightarrow> int list \<times> 'r" where
  "approximate_mode g class_counts n_draws r =
     (let continuous = map (\<lambda>c. real_of_int c / real_of_int (sum_list class_counts) * real n_draws)
                         class_counts;
          floored = map floor continuous;
          need_to_add = int n_draws - sum_list floored
      in if need_to_add > 0
         then let remainder = map (\<lambda>c. c - real_of_int \<lfloor>c\<rfloor>) continuous;
                  values = rev (sort (remdups remainder))
              in add_remainders g remainder values floored (nat need_to_add) r
         else (floored, r))"

text \<open>
  The loop of \<^verbatim>\<open>StratifiedShuffleSplit._iter_indices\<close> over the classes:
  \<^verbatim>\<open>
  for i in range(n_classes):
      permutation = rng.permutation(class_counts[i])
      perm_indices_class_i = class_indices[i].take(permutation, mode="clip")
      train.extend(perm_indices_class_i[: n_i[i]])
      test.extend(perm_indices_class_i[n_i[i] : n_i[i] + t_i[i]])
  \<close>
\<close>

fun split_classes ::
  "'r rng \<Rightarrow> (nat list \<times> int \<times> int) list \<Rightarrow> 'r \<Rightarrow> nat list \<times> nat list \<times> 'r" where
  "split_classes g [] r = ([], [], r)"
| "split_classes g ((class_indices, n, t) # rest) r =
     (let (perm, r1) = permutation g r (length class_indices);
          perm_indices = map (\<lambda>k. class_indices ! min k (length class_indices - 1)) perm;
          (train, test, r2) = split_classes g rest r1
      in (take (nat n) perm_indices @ train,
          take (nat t) (drop (nat n) perm_indices) @ test, r2))"

text \<open>
  The rest of \<^verbatim>\<open>_iter_indices\<close>: a class with fewer than two rows and a partition
  smaller than the number of classes are refused; the train and test allocations per
  class come from \<^verbatim>\<open>_approximate_mode\<close>; both index lists are shuffled at the end.
\<close>

definition stratified_shuffle_split ::
  "'r rng \<Rightarrow> nat \<Rightarrow> nat list \<Rightarrow> nat \<Rightarrow> nat \<Rightarrow> py_error + nat list \<times> nat list" where
  "stratified_shuffle_split g n_classes y_indices n_train n_test =
     (let class_counts = map (\<lambda>c. count_list y_indices c) [0..<n_classes]
      in if \<exists>c \<in> set class_counts. c < 2 then Inl ValueError
         else if n_train < n_classes then Inl ValueError
         else if n_test < n_classes then Inl ValueError
         else
           let class_indices =
                 map (\<lambda>c. filter (\<lambda>j. y_indices ! j = c) [0..<length y_indices]) [0..<n_classes];
               r0 = seed g 42;
               (n_i, r1) = approximate_mode g (map int class_counts) n_train r0;
               class_counts_remaining = map (\<lambda>(c, m). int c - m) (zip class_counts n_i);
               (t_i, r2) = approximate_mode g class_counts_remaining n_test r1;
               (train, test, r3) = split_classes g (zip class_indices (zip n_i t_i)) r2;
               (p_train, r4) = permutation g r3 (length train);
               (p_test, r5) = permutation g r4 (length test)
           in Inr (map (\<lambda>k. train ! k) p_train, map (\<lambda>k. test ! k) p_test))"

text \<open>
  \<^verbatim>\<open>X.iloc[indices]\<close>: the rows at the given positions, in the given order; a
  position beyond the last row raises IndexError.
\<close>

fun col_take :: "nat list \<Rightarrow> column \<Rightarrow> py_error + column" where
  "col_take idx (NumCol xs) =
     (if \<forall>i \<in> set idx. i < length xs then Inr (NumCol (map (\<lambda>i. xs ! i) idx))
      else Inl IndexError)"
| "col_take idx (ObjCol ss) =
     (if \<forall>i \<in> set idx. i < length ss then Inr (ObjCol (map (\<lambda>i. ss ! i) idx))
      else Inl IndexError)"

fun take_rows :: "nat list \<Rightarrow> dataframe \<Rightarrow> py_error + dataframe" where
  "take_rows idx [] = Inr []"
| "take_rows idx ((n, c) # df) =
     (case col_take idx c of Inl e \<Rightarrow> Inl e
      | Inr c' \<Rightarrow>
          (case take_rows idx df of Inl e \<Rightarrow> Inl e
           | Inr df' \<Rightarrow> Inr ((n, c') # df')))"

text \<open>
  \<^verbatim>\<open>train_test_split(X, y, test_size=0.2, random_state=42, stratify=y)\<close> returns the
  rows of the training indices and of the test indices, of \<open>X\<close> and of \<open>y\<close>.
\<close>

definition split_indices :: "'r rng \<Rightarrow> column \<Rightarrow> py_error + nat list \<times> nat list" where
  "split_indices g y =
     (case validate_shuffle_split (col_len y) of Inl e \<Rightarrow> Inl e
      | Inr (n_train, n_test) \<Rightarrow>
     (case label_classes y of Inl e \<Rightarrow> Inl e
      | Inr (n_classes, y_indices) \<Rightarrow>
          stratified_shuffle_split g n_classes y_indices n_train n_test))"

definition train_test_split ::
  "'r rng \<Rightarrow> dataframe \<Rightarrow> column \<Rightarrow> py_error + dataframe \<times> dataframe \<times> column \<times> column" where
  "train_test_split g X y =
     (case split_indices g y of Inl e \<Rightarrow> Inl e
      | Inr (train, test) \<Rightarrow>
     (case take_rows train X of Inl e \<Rightarrow> Inl e
      | Inr Xtr \<Rightarrow>
     (case take_rows test X of Inl e \<Rightarrow> Inl e
      | Inr Xte \<Rightarrow>
     (case col_take train y of Inl e \<Rightarrow> Inl e
      | Inr ytr \<Rightarrow>
     (case col_take test y of Inl e \<Rightarrow> Inl e
      | Inr yte \<Rightarrow> Inr (Xtr, Xte, ytr, yte))))))"

text \<open>
  The proportion of the label \<open>v\<close> among the rows at the given positions; the
  proportion in the whole table is the one among all positions.
\<close>

definition label_share :: "'a option list \<Rightarrow> nat list \<Rightarrow> 'a \<Rightarrow> real" where
  "label_share ys rows v =
     real (length (filter (\<lambda>j. ys ! j = Some v) rows)) / real (length rows)"

section \<open>The feature transformer\<close>

text \<open>
  \<^verbatim>\<open>X.select_dtypes(include=['int64', 'float64'])\<close> and
  \<^verbatim>\<open>X.select_dtypes(include=['object', 'category'])\<close>: the numeric columns and the text
  columns, each in column order. A row selection of \<open>X\<close> has the dtypes of \<open>X\<close>, so
  the column names chosen on \<open>X\<close> select the same columns in \<open>X_train\<close> and in
  \<open>X_test\<close>; every column is of one of the two kinds and the
  \<^verbatim>\<open>remainder='passthrough'\<close> part is empty.
\<close>

datatype dtype = Number | Object

fun dtype_of :: "column \<Rightarrow> dtype" where
  "dtype_of (NumCol _) = Number"
| "dtype_of (ObjCol _) = Object"

definition dtypes :: "dataframe \<Rightarrow> (string \<times> dtype) list" where
  "dtypes df = map (\<lambda>(n, c). (n, dtype_of c)) df"

fun numerical :: "dataframe \<Rightarrow> float64 option list list" where
  "numerical [] = []"
| "numerical ((n, NumCol xs) # df) = xs # numerical df"
| "numerical ((n, ObjCol ss) # df) = numerical df"

fun categorical :: "dataframe \<Rightarrow> string option list list" where
  "categorical [] = []"
| "categorical ((n, NumCol xs) # df) = categorical df"
| "categorical ((n, ObjCol ss) # df) = ss # categorical df"

text \<open>
  \<^verbatim>\<open>StandardScaler\<close> validates the numeric block with
  \<^verbatim>\<open>check_array(X, dtype=FLOAT_DTYPES, force_all_finite='allow-nan')\<close>, at fit time and
  at transform time: NaN is let through, an infinite entry raises ValueError
  (\<^verbatim>\<open>Input contains infinity\<close>).
\<close>

definition check_array :: "float64 option list list \<Rightarrow> py_error + real option list list" where
  "check_array cols =
     (if \<exists>col \<in> set cols. \<exists>x \<in> set col. is_inf x then Inl ValueError
      else Inr (map (map finite_value) cols))"

text \<open>
  Fitting a column stores the mean and the standard deviation (population variance) of
  its entries other than NaN. A column that cannot be told from a constant one gets the
  scale one instead of its standard deviation:
  \<^verbatim>\<open>
  def _is_constant_feature(var, mean, n_samples):
      eps = np.finfo(np.float64).eps
      upper_bound = n_samples * eps * var + (n_samples * mean * eps) ** 2
      return var <= upper_bound

  constant_mask = _is_constant_feature(self.var_, self.mean_, self.n_samples_seen_)
  self.scale_ = _handle_zeros_in_scale(np.sqrt(self.var_), copy=False, constant_mask=constant_mask)
  \<close>
  where \<^verbatim>\<open>_handle_zeros_in_scale\<close> sets the scale to one under the mask. A column with
  no entry other than NaN has NaN for both. Transforming maps \<open>x\<close> to
  \<open>(x - mean) / scale\<close> and NaN to NaN.
\<close>

definition eps :: real where
  "eps = 1 / 2 ^ 52"

definition is_constant_feature :: "real \<Rightarrow> real \<Rightarrow> nat \<Rightarrow> bool" where
  "is_constant_feature var mu n_samples \<longleftrightarrow>
     var \<le> real n_samples * eps * var + (real n_samples * mu * eps)\<^sup>2"

definition mean :: "real list \<Rightarrow> real" where
  "mean xs = sum_list xs / real (length xs)"

definition variance :: "real list \<Rightarrow> real" where
  "variance xs = mean (map (\<lambda>x. (x - mean xs)\<^sup>2) xs)"

definition std :: "real list \<Rightarrow> real" where
  "std xs = sqrt (variance xs)"

record scaler =
  fitted_mean :: "real option"
  fitted_scale :: "real option"

definition scaler_fit :: "real option list \<Rightarrow> scaler" where
  "scaler_fit col =
     (let xs = dropna col
      in if xs = [] then \<lparr>fitted_mean = None, fitted_scale = None\<rparr>
         else \<lparr>fitted_mean = Some (mean xs),
               fitted_scale =
                 Some (if is_constant_feature (variance xs) (mean xs) (length xs) then 1
                       else sqrt (variance xs))\<rparr>)"

definition scaler_transform :: "scaler \<Rightarrow> real option list \<Rightarrow> real option list" where
  "scaler_transform s col =
     map (\<lambda>x. case (x, fitted_mean s, fitted_scale s) of
                 (Some v, Some m, Some sd) \<Rightarrow> Some ((v - m) / sd)
               | _ \<Rightarrow> None) col"

text \<open>
  \<^verbatim>\<open>OneHotEncoder(handle_unknown='ignore', drop='first')\<close>: fitting a column stores its
  sorted distinct values, NaN last; the first of them is the dropped reference level.
  Transforming yields one indicator column per stored value other than the first. A
  value that was not stored raises when \<^verbatim>\<open>handle_unknown='error'\<close> and is encoded
  with zeros when \<^verbatim>\<open>handle_unknown='ignore'\<close>.
\<close>

datatype handle_unknown = Error | Ignore

definition encoder_fit :: "string option list \<Rightarrow> string option list" where
  "encoder_fit col =
     map Some (sort (remdups (dropna col))) @ (if None \<in> set col then [None] else [])"

definition onehot_columns :: "string option list \<Rightarrow> string option list \<Rightarrow> real option list list" where
  "onehot_columns categories col =
     map (\<lambda>c. map (\<lambda>v. Some (if v = c then 1 else 0)) col) (tl categories)"

definition encoder_transform ::
  "handle_unknown \<Rightarrow> string option list \<Rightarrow> string option list \<Rightarrow> py_error + real option list list" where
  "encoder_transform hu categories col =
     (if hu = Error \<and> (\<exists>v \<in> set col. v \<notin> set categories) then Inl ValueError
      else Inr (onehot_columns categories col))"

text \<open>
  The fitted state of the \<^verbatim>\<open>ColumnTransformer\<close>: the columns seen at fit time, one
  scaler per numeric column and one list of categories per text column. The processed
  matrix is stored column by column: the scaled numeric columns, then the indicator
  columns of each text column.

  Fitting selects the columns by name and refuses a frame in which a selected name
  stands for more than one column (\<^verbatim>\<open>Selected columns are not unique in dataframe\<close>).
  A frame that has columns but no rows is refused (\<^verbatim>\<open>Found array with 0 sample(s)\<close>);
  for a frame without columns no transformer runs and nothing is refused.
\<close>

record fitted =
  feature_names_in :: "(string \<times> dtype) list"
  scalers :: "scaler list"
  categories :: "string option list list"

record preprocessor =
  unknown :: handle_unknown
  state :: "fitted option"

definition new_preprocessor :: preprocessor where
  "new_preprocessor = \<lparr>unknown = Ignore, state = None\<rparr>"

definition fit :: "dataframe \<Rightarrow> py_error + fitted" where
  "fit X =
     (if \<not> distinct (columns X) then Inl ValueError
      else if X \<noteq> [] \<and> nrows X = 0 then Inl ValueError
      else case check_array (numerical X) of Inl e \<Rightarrow> Inl e
           | Inr num \<Rightarrow>
               Inr \<lparr>feature_names_in = dtypes X,
                    scalers = map scaler_fit num,
                    categories = map encoder_fit (categorical X)\<rparr>)"

text \<open>
  At transform time the columns are looked up by the names seen at fit time: further
  columns of the frame are left aside and the order of its columns does not matter. A
  name that stands for no column, or for more than one, raises ValueError. A column
  whose dtype is not the one seen at fit time is refused here as well (scikit-learn
  would go on to convert or compare text and numbers); the notebook only transforms
  row selections of the frame it fits on, which have its dtypes.
\<close>

fun reindex :: "string list \<Rightarrow> dataframe \<Rightarrow> py_error + dataframe" where
  "reindex [] X = Inr []"
| "reindex (n # ns) X =
     (case filter (\<lambda>(m, c). m = n) X of
        [(m, c)] \<Rightarrow>
          (case reindex ns X of Inl e \<Rightarrow> Inl e
           | Inr cols \<Rightarrow> Inr ((n, c) # cols))
      | _ \<Rightarrow> Inl ValueError)"

fun encode_columns ::
  "handle_unknown \<Rightarrow> string option list list \<Rightarrow> string option list list
     \<Rightarrow> py_error + real option list list" where
  "encode_columns hu (cats # rest) (col # cols) =
     (case encoder_transform hu cats col of Inl e \<Rightarrow> Inl e
      | Inr block \<Rightarrow>
          (case encode_columns hu rest cols of Inl e \<Rightarrow> Inl e
           | Inr blocks \<Rightarrow> Inr (block @ blocks)))"
| "encode_columns hu _ _ = Inr []"

definition apply_fitted ::
  "handle_unknown \<Rightarrow> fitted \<Rightarrow> dataframe \<Rightarrow> py_error + real option list list" where
  "apply_fitted hu f X =
     (case reindex (map fst (feature_names_in f)) X of Inl e \<Rightarrow> Inl e
      | Inr Xs \<Rightarrow>
          if dtypes Xs \<noteq> feature_names_in f then Inl ValueError
          else if Xs \<noteq> [] \<and> nrows Xs = 0 then Inl ValueError
          else case check_array (numerical Xs) of Inl e \<Rightarrow> Inl e
               | Inr num \<Rightarrow>
                   (case encode_columns hu (categories f) (categorical Xs) of Inl e \<Rightarrow> Inl e
                    | Inr blocks \<Rightarrow>
                        Inr (map (\<lambda>(s, col). scaler_transform s col) (zip (scalers f) num)
                             @ blocks)))"

text \<open>
  The two methods the notebook calls. \<^verbatim>\<open>fit_transform\<close> stores the fitted state in
  the object and returns the processed matrix; \<^verbatim>\<open>transform\<close> reads the stored state
  and raises NotFittedError when there is none. Both return the object after the call.
\<close>

definition fit_transform ::
  "preprocessor \<Rightarrow> dataframe \<Rightarrow> py_error + preprocessor \<times> real option list list" where
  "fit_transform p X =
     (case fit X of Inl e \<Rightarrow> Inl e
      | Inr f \<Rightarrow>
          (case apply_fitted (unknown p) f X of Inl e \<Rightarrow> Inl e
           | Inr M \<Rightarrow> Inr (p\<lparr>state := Some f\<rparr>, M)))"

definition transform ::
  "preprocessor \<Rightarrow> dataframe \<Rightarrow> py_error + preprocessor \<times> real option list list" where
  "transform p X =
     (case state p of None \<Rightarrow> Inl NotFittedError
      | Some f \<Rightarrow>
          (case apply_fitted (unknown p) f X of Inl e \<Rightarrow> Inl e
           | Inr M \<Rightarrow> Inr (p, M)))"

text \<open>
  The preparation cell:
  \<^verbatim>\<open>
  X = df.drop('Churn', axis=1)
  y = df['Churn']
  preprocessor = ColumnTransformer(...)
  X_train, X_test, y_train, y_test = train_test_split(X, y, test_size=0.2, random_state=42, stratify=y)
  X_train_processed = preprocessor.fit_transform(X_train)
  X_test_processed = preprocessor.transform(X_test)
  \<close>
\<close>

record prepared =
  X_train :: dataframe
  X_test :: dataframe
  y_train :: column
  y_test :: column
  fitted_preprocessor :: preprocessor
  X_train_processed :: "real option list list"
  X_test_processed :: "real option list list"

definition prepare :: "'r rng \<Rightarrow> dataframe \<Rightarrow> py_error + prepared" where
  "prepare g df =
     (case drop_column df ''Churn'' of Inl e \<Rightarrow> Inl e
      | Inr X \<Rightarrow>
     (case getitem df ''Churn'' of Inl e \<Rightarrow> Inl e
      | Inr y \<Rightarrow>
     (case train_test_split g X y of Inl e \<Rightarrow> Inl e
      | Inr (Xtr, Xte, ytr, yte) \<Rightarrow>
     (case fit_transform new_preprocessor Xtr of Inl e \<Rightarrow> Inl e
      | Inr (p1, Mtr) \<Rightarrow>
     (case transform p1 Xte of Inl e \<Rightarrow> Inl e
      | Inr (p2, Mte) \<Rightarrow>
          Inr \<lparr>X_train = Xtr, X_test = Xte, y_train = ytr, y_test = yte,
               fitted_preprocessor = p2,
               X_train_processed = Mtr, X_test_processed = Mte\<rparr>)))))"

section \<open>The model cells and the whole run\<close>

text \<open>
  A classifier is an opaque object with the two methods the notebook calls:
  \<^verbatim>\<open>fit(X_train_processed, y_train)\<close> and \<^verbatim>\<open>predict(X_test_processed)\<close>; either may
  raise. Each of the six model cells fits, predicts and reports the accuracy and the
  confusion matrix of the predictions against \<open>y_test\<close>:
  \<^verbatim>\<open>
  lr.fit(X_train_processed, y_train)
  y_pred_lr = lr.predict(X_test_processed)
  print(f"Accuracy: {accuracy_score(y_test, y_pred_lr) * 100:.2f}%")
  cm_lr = confusion_matrix(y_test, y_pred_lr)
  \<close>
  The metrics compare numeric predictions with the labels; a label column with a
  missing or infinite entry, or a text label column, is refused. The heat map drawn
  from the matrix is left out.
\<close>

record 'm classifier =
  clf_fit :: "real option list list \<Rightarrow> column \<Rightarrow> py_error + 'm"
  clf_predict :: "'m \<Rightarrow> real option list list \<Rightarrow> py_error + real list"

fun label_values :: "column \<Rightarrow> py_error + real list" where
  "label_values (NumCol ys) =
     (if None \<in> set (map finite_value ys) then Inl ValueError
      else Inr (map (\<lambda>y. the (finite_value y)) ys))"
| "label_values (ObjCol ss) = Inl ValueError"

definition model_cell :: "'m classifier \<Rightarrow> prepared \<Rightarrow> py_error + real option \<times> nat list list" where
  "model_cell clf d =
     (case clf_fit clf (X_train_processed d) (y_train d) of Inl e \<Rightarrow> Inl e
      | Inr m \<Rightarrow>
     (case clf_predict clf m (X_test_processed d) of Inl e \<Rightarrow> Inl e
      | Inr y_pred \<Rightarrow>
     (case label_values (y_test d) of Inl e \<Rightarrow> Inl e
      | Inr y_true \<Rightarrow>
     (case accuracy_score y_true y_pred of Inl e \<Rightarrow> Inl e
      | Inr acc \<Rightarrow>
     (case confusion_matrix y_true y_pred of Inl e \<Rightarrow> Inl e
      | Inr cm \<Rightarrow> Inr (acc, cm))))))"

text \<open>The model cells run one after the other; the first exception ends the run.\<close>

fun model_cells ::
  "'m classifier list \<Rightarrow> prepared \<Rightarrow> py_error + (real option \<times> nat list list) list" where
  "model_cells [] d = Inr []"
| "model_cells (clf # clfs) d =
     (case model_cell clf d of Inl e \<Rightarrow> Inl e
      | Inr report \<Rightarrow>
          (case model_cells clfs d of Inl e \<Rightarrow> Inl e
           | Inr reports \<Rightarrow> Inr (report # reports)))"

text \<open>
  The exploration cell only prints (the tables it displays are left out):
  \<^verbatim>\<open>
  print("\nDataset Information:")
  df.info()
  print("\nMissing values per column:")
  print(df.isnull().sum())
  \<close>
\<close>

definition explore :: "dataframe \<Rightarrow> line list" where
  "explore df = [Text ''Dataset Information:'', Text ''Missing values per column:'']"

text \<open>
  The notebook run from top to bottom: loader, exploration, cleaner, preparation, model
  cells. An exception in a cell ends the run with what was printed so far. The cells
  that only draw charts are left out.
\<close>

definition run ::
  "(string \<rightharpoonup> dataframe) \<Rightarrow> (string \<Rightarrow> float64 option) \<Rightarrow> 'r rng \<Rightarrow> 'm classifier list
     \<Rightarrow> (prepared \<times> (real option \<times> nat list list) list) cell" where
  "run fs parse g clfs =
     (case load fs of
        (Inl e, out1) \<Rightarrow> (Inl e, out1)
      | (Inr df, out1) \<Rightarrow>
          let out2 = out1 @ explore df
          in (case clean parse df of
                (Inl e, out3) \<Rightarrow> (Inl e, out2 @ out3)
              | (Inr df', out3) \<Rightarrow>
                  (case prepare g df' of
                     Inl e \<Rightarrow> (Inl e, out2 @ out3)
                   | Inr d \<Rightarrow>
                       (case model_cells clfs d of
                          Inl e \<Rightarrow> (Inl e, out2 @ out3)
                        | Inr reports \<Rightarrow> (Inr (d, reports), out2 @ out3)))))"

text \<open>
  A table as pandas holds it: the column names are distinct and every column has one
  entry per row.
\<close>

definition wf_df :: "dataframe \<Rightarrow> bool" where
  "wf_df df \<longleftrightarrow> distinct (columns df) \<and> (\<forall>c \<in> set (map snd df). col_len c = nrows df)"

section \<open>Example tables\<close>

definition example_table :: dataframe where
  "example_table =
     [(''customerID'', ObjCol [Some ''a'', Some ''b'', Some ''c'']),
      (''tenure'', NumCol [Some (Finite 1), Some (Finite 2), Some (Finite 3)]),
      (''TotalCharges'', ObjCol [Some ''10'', Some '' '', Some ''30'']),
      (''Churn'', ObjCol [Some ''No'', Some ''Yes'', Some ''No''])]"

definition example_cleaned :: dataframe where
  "example_cleaned =
     [(''tenure'', NumCol [Some (Finite 1), Some (Finite 2), Some (Finite 3)]),
      (''TotalCharges'', NumCol [Some (Finite 10), Some (Finite 20), Some (Finite 30)]),
      (''Churn'', NumCol [Some (Finite 0), Some (Finite 1), Some (Finite 0)])]"

text \<open>
  Two cleaned tables of ten customers, five of them churners, that differ only in the
  rows 0 and 1.
\<close>

definition churn_5_5 :: "float64 option list" where
  "churn_5_5 = map (\<lambda>x. Some (Finite x)) [0, 1, 0, 1, 0, 1, 0, 1, 0, 1]"

definition features_a :: dataframe where
  "features_a =
     [(''tenure'', NumCol (map (\<lambda>x. Some (Finite x)) [5, 7, 1, 3, 1, 3, 1, 3, 1, 3])),
      (''Contract'', ObjCol [Some ''m'', Some ''y'', Some ''m'', Some ''y'', Some ''m'',
                             Some ''y'', Some ''m'', Some ''y'', Some ''m'', Some ''y''])]"

definition features_b :: dataframe where
  "features_b =
     [(''tenure'', NumCol (map (\<lambda>x. Some (Finite x)) [100, 200, 1, 3, 1, 3, 1, 3, 1, 3])),
      (''Contract'', ObjCol [Some ''z'', Some ''m'', Some ''m'', Some ''y'', Some ''m'',
                             Some ''y'', Some ''m'', Some ''y'', Some ''m'', Some ''y''])]"

definition cleaned_a :: dataframe where
  "cleaned_a = features_a @ [(''Churn'', NumCol churn_5_5)]"

definition cleaned_b :: dataframe where
  "cleaned_b = features_b @ [(''Churn'', NumCol churn_5_5)]"

text \<open>What the preparation cell returns on them, with the counting generator.\<close>

definition prepared_a :: prepared where
  "prepared_a =
     \<lparr>X_train = [(''tenure'', NumCol (map (\<lambda>x. Some (Finite x)) [3, 3, 3, 3, 1, 1, 1, 1])),
                 (''Contract'', ObjCol [Some ''y'', Some ''y'', Some ''y'', Some ''y'',
                                        Some ''m'', Some ''m'', Some ''m'', Some ''m''])],
      X_test = [(''tenure'', NumCol [Some (Finite 7), Some (Finite 5)]),
                (''Contract'', ObjCol [Some ''y'', Some ''m''])],
      y_train = NumCol (map (\<lambda>x. Some (Finite x)) [1, 1, 1, 1, 0, 0, 0, 0]),
      y_test = NumCol [Some (Finite 1), Some (Finite 0)],
      fitted_preprocessor =
        \<lparr>unknown = Ignore,
         state = Some \<lparr>feature_names_in = [(''tenure'', Number), (''Contract'', Object)],
                       scalers = [\<lparr>fitted_mean = Some 2, fitted_scale = Some 1\<rparr>],
                       categories = [[Some ''m'', Some ''y'']]\<rparr>\<rparr>,
      X_train_processed =
        [[Some 1, Some 1, Some 1, Some 1, Some (- 1), Some (- 1), Some (- 1), Some (- 1)],
         [Some 1, Some 1, Some 1, Some 1, Some 0, Some 0, Some 0, Some 0]],
      X_test_processed = [[Some 5, Some 3], [Some 1, Some 0]]\<rparr>"

definition prepared_b :: prepared where
  "prepared_b =
     prepared_a
       \<lparr>X_test := [(''tenure'', NumCol [Some (Finite 200), Some (Finite 100)]),
                   (''Contract'', ObjCol [Some ''m'', Some ''z''])],
        X_test_processed := [[Some 198, Some 98], [Some 0, Some 0]]\<rparr>"

text \<open>The labels of ten customers, five of them churners (the labels of \<open>cleaned_a\<close>).\<close>

definition labels_5_5 :: "float64 option list" where
  "labels_5_5 = map (\<lambda>x. Some (Finite x)) [0, 1, 0, 1, 0, 1, 0, 1, 0, 1]"

text \<open>The labels of ten customers, three of them churners.\<close>

definition labels_7_3 :: "float64 option list" where
  "labels_7_3 = map (\<lambda>x. Some (Finite x)) [0, 1, 0, 0, 1, 0, 0, 1, 0, 0]"

text \<open>The labels of ten customers, two of them churners.\<close>

definition labels_8_2 :: "float64 option list" where
  "labels_8_2 = map (\<lambda>x. Some (Finite x)) [0, 1, 0, 0, 1, 0, 0, 0, 0, 0]"

definition maybe_table :: dataframe where
  "maybe_table =
     [(''customerID'', ObjCol [Some ''a'', Some ''b'']),
      (''TotalCharges'', ObjCol [Some ''10'', Some ''30'']),
      (''Churn'', ObjCol [Some ''No'', Some ''Maybe''])]"

definition blank_table :: dataframe where
  "blank_table =
     [(''customerID'', ObjCol [Some ''a'']),
      (''TotalCharges'', ObjCol [Some '' '']),
      (''Churn'', ObjCol [Some ''No''])]"

text \<open>A table whose total charges hold the two infinities and a blank.\<close>

definition infinite_table :: dataframe where
  "infinite_table =
     [(''customerID'', ObjCol [Some ''a'', Some ''b'', Some ''c'']),
      (''TotalCharges'', ObjCol [Some ''-inf'', Some '' '', Some ''inf'']),
      (''Churn'', ObjCol [Some ''No'', Some ''Yes'', Some ''No''])]"

text \<open>
  Two feature tables of three customers; the third customer has a contract that the
  first two do not have, and in the second table an infinite tenure.
\<close>

definition unseen_table :: dataframe where
  "unseen_table =
     [(''tenure'', NumCol [Some (Finite 1), Some (Finite 3), Some (Finite 7)]),
      (''Contract'', ObjCol [Some ''a'', Some ''b'', Some ''c''])]"

definition unseen_infinite_table :: dataframe where
  "unseen_infinite_table =
     [(''tenure'', NumCol [Some (Finite 1), Some (Finite 3), Some PosInf]),
      (''Contract'', ObjCol [Some ''a'', Some ''b'', Some ''c''])]"

text \<open>What fitting on the first two customers of either table stores.\<close>

definition unseen_fitted :: preprocessor where
  "unseen_fitted =
     \<lparr>unknown = Ignore,
      state = Some \<lparr>feature_names_in = [(''tenure'', Number), (''Contract'', Object)],
                    scalers = [\<lparr>fitted_mean = Some 2, fitted_scale = Some 1\<rparr>],
                    categories = [[Some ''a'', Some ''b'']]\<rparr>\<rparr>"


section \<open>Properties of the loader\<close>

text \<open>
  C9. If the input file path does not resolve, the run ends with FileNotFoundError; the
  only thing printed is the diagnostic of the loader. Nothing of the parser, the
  generator or the classifiers enters the result: no table is substituted and no later
  cell runs.
\<close>

theorem missing_file_aborts:
  assumes "fs ''class1_dataset.csv'' = None"
  shows "run fs parse g clfs =
     (Inl FileNotFoundError,
      [Text ''ERROR: 'class1_dataset.csv' not found. Please download it and place it in the correct directory.''])"
  using assms by (simp add: run_def load_def read_csv_def)

theorem missing_file_aborts_witness:
  "(Map.empty :: string \<rightharpoonup> dataframe) ''class1_dataset.csv'' = None
   \<and> run Map.empty parse_decimal counting_rng ([] :: unit classifier list) =
     (Inl FileNotFoundError,
      [Text ''ERROR: 'class1_dataset.csv' not found. Please download it and place it in the correct directory.''])"
  using missing_file_aborts [of Map.empty parse_decimal counting_rng "[]"] by simp

text \<open>When the file is there, the loader hands its table on and the run goes on.\<close>

lemma load_existing:
  "fs ''class1_dataset.csv'' = Some df \<Longrightarrow>
     load fs = (Inr df, [Text ''First 5 rows of the dataset:''])"
  by (simp add: load_def read_csv_def)

section \<open>Properties of the cleaner\<close>

lemma getitem_Inr: "getitem df name = Inr c \<longleftrightarrow> map_of df name = Some c"
  by (simp add: getitem_def split: option.splits)

lemma map_of_setitem:
  "map_of (setitem df name c) m = (if m = name then Some c else map_of df m)"
proof (cases "name \<in> set (columns df)")
  case True
  have "map_of (map (\<lambda>(n, old). if n = name then (n, c) else (n, old)) df) name
      = map_option (\<lambda>_. c) (map_of df name)"
    by (induction df) (simp_all add: case_prod_beta)
  moreover have "m \<noteq> name \<Longrightarrow>
      map_of (map (\<lambda>(n, old). if n = name then (n, c) else (n, old)) df) m = map_of df m"
    by (induction df) (simp_all add: case_prod_beta)
  moreover from True have "map_of df name \<noteq> None"
    by (simp add: columns_def map_of_eq_None_iff)
  then obtain old where "map_of df name = Some old"
    by blast
  ultimately show ?thesis
    using True by (simp add: setitem_def)
next
  case False
  then have "map_of df name = None"
    by (simp add: columns_def map_of_eq_None_iff)
  with False show ?thesis
    by (simp add: setitem_def map_of_append split: option.splits) (auto simp: map_add_def split: option.splits)
qed

lemma columns_setitem:
  "name \<in> set (columns df) \<Longrightarrow> columns (setitem df name c) = columns df"
  by (induction df) (auto simp: setitem_def columns_def)

lemma map_of_drop:
  "drop_column df name = Inr df' \<Longrightarrow> map_of df' m = (if m = name then None else map_of df m)"
proof -
  have "map_of (filter (\<lambda>(n, _). n \<noteq> name) df) m = (if m = name then None else map_of df m)"
    by (induction df) auto
  then show "drop_column df name = Inr df' \<Longrightarrow> ?thesis"
    by (auto simp: drop_column_def split: if_splits)
qed

lemma columns_drop:
  "drop_column df name = Inr df' \<Longrightarrow> columns df' = filter (\<lambda>n. n \<noteq> name) (columns df)"
proof -
  have "map fst (filter (\<lambda>(n, _). n \<noteq> name) df) = filter (\<lambda>n. n \<noteq> name) (map fst df)"
    by (induction df) auto
  then show "drop_column df name = Inr df' \<Longrightarrow> ?thesis"
    by (auto simp: drop_column_def columns_def split: if_splits)
qed

lemma in_columns_iff: "name \<in> set (columns df) \<longleftrightarrow> map_of df name \<noteq> None"
  by (simp add: columns_def map_of_eq_None_iff)

text \<open>What the cleaning cell returns, when it returns a frame.\<close>

lemma clean_Inr:
  assumes "fst (clean parse df) = Inr df'"
  obtains df1 raw churn where
    "drop_column df ''customerID'' = Inr df1"
    "map_of df ''TotalCharges'' = Some raw"
    "map_of df ''Churn'' = Some churn"
    "df' = setitem (setitem (setitem df1 ''TotalCharges'' (NumCol (to_numeric parse raw)))
             ''TotalCharges'' (NumCol (fillna (to_numeric parse raw) (median (to_numeric parse raw)))))
             ''Churn'' (NumCol (series_map churn_dict churn))"
proof -
  from assms obtain df1 where d: "drop_column df ''customerID'' = Inr df1"
    by (auto simp: clean_def split: sum.splits)
  from assms d obtain raw where r: "getitem df1 ''TotalCharges'' = Inr raw"
    by (auto simp: clean_def split: sum.splits)
  let ?tc = "to_numeric parse raw"
  let ?df3 = "setitem (setitem df1 ''TotalCharges'' (NumCol ?tc)) ''TotalCharges''
                (NumCol (fillna ?tc (median ?tc)))"
  from assms d r obtain churn where c: "getitem ?df3 ''Churn'' = Inr churn"
    by (auto simp: clean_def Let_def split: sum.splits)
  from assms d r c have e: "df' = setitem ?df3 ''Churn'' (NumCol (series_map churn_dict churn))"
    by (simp add: clean_def Let_def)
  from r have "map_of df ''TotalCharges'' = Some raw"
    by (simp add: getitem_Inr map_of_drop [OF d])
  moreover from c have "map_of df ''Churn'' = Some churn"
    by (simp add: getitem_Inr map_of_setitem map_of_drop [OF d])
  ultimately show thesis
    using that d e by blast
qed


text \<open>The cleaning cell returns a table whenever the three columns it names are there.\<close>

lemma clean_returns:
  assumes id: "''customerID'' \<in> set (columns df)"
    and tc: "''TotalCharges'' \<in> set (columns df)"
    and ch: "''Churn'' \<in> set (columns df)"
  shows "\<exists>df'. fst (clean parse df) = Inr df'"
proof -
  from id obtain df1 where d: "drop_column df ''customerID'' = Inr df1"
    by (simp add: drop_column_def)
  from tc have "map_of df1 ''TotalCharges'' \<noteq> None"
    by (simp add: map_of_drop [OF d] in_columns_iff)
  then obtain raw where r: "getitem df1 ''TotalCharges'' = Inr raw"
    by (auto simp: getitem_def)
  let ?tc = "to_numeric parse raw"
  let ?df3 = "setitem (setitem df1 ''TotalCharges'' (NumCol ?tc)) ''TotalCharges''
                (NumCol (fillna ?tc (median ?tc)))"
  from ch have "map_of ?df3 ''Churn'' \<noteq> None"
    by (simp add: map_of_setitem map_of_drop [OF d] in_columns_iff)
  then obtain churn where c: "getitem ?df3 ''Churn'' = Inr churn"
    by (auto simp: getitem_def)
  from d r c show ?thesis
    by (simp add: clean_def Let_def)
qed

lemma sort_eq_Nil: "sort xs = [] \<longleftrightarrow> xs = []"
  by (metis length_0_conv length_sort)

lemma float_add_None:
  "float_add a b = None \<longleftrightarrow> (a = PosInf \<and> b = NegInf) \<or> (a = NegInf \<and> b = PosInf)"
  by (cases a; cases b) simp_all

lemma in_dropna: "a \<in> set (dropna xs) \<longleftrightarrow> Some a \<in> set xs"
  by (induction xs) (auto simp: dropna_def)

text \<open>
  The median exists as soon as one entry is a number, unless the column holds both
  infinities.
\<close>

lemma median_Some:
  assumes some: "dropna xs \<noteq> []"
    and inf: "Some PosInf \<notin> set xs \<or> Some NegInf \<notin> set xs"
  shows "\<exists>m. median xs = Some m"
proof -
  define s where "s = sort (dropna xs)"
  define n where "n = length s"
  from some have pos: "0 < n"
    by (simp add: n_def s_def)
  have m: "median xs = (if odd n then Some (s ! (n div 2))
      else map_option float_half (float_add (s ! (n div 2 - 1)) (s ! (n div 2))))"
    using some by (simp add: median_def Let_def s_def n_def sort_eq_Nil)
  show ?thesis
  proof (cases "odd n")
    case True
    with m show ?thesis
      by simp
  next
    case False
    with pos have "n div 2 - 1 < n" and "n div 2 < n"
      by simp_all
    then have "s ! (n div 2 - 1) \<in> set s" and "s ! (n div 2) \<in> set s"
      unfolding n_def by simp_all
    then have a: "Some (s ! (n div 2 - 1)) \<in> set xs" and b: "Some (s ! (n div 2)) \<in> set xs"
      by (simp_all add: s_def in_dropna)
    have "float_add (s ! (n div 2 - 1)) (s ! (n div 2)) \<noteq> None"
    proof
      assume "float_add (s ! (n div 2 - 1)) (s ! (n div 2)) = None"
      then have "(s ! (n div 2 - 1) = PosInf \<and> s ! (n div 2) = NegInf)
          \<or> (s ! (n div 2 - 1) = NegInf \<and> s ! (n div 2) = PosInf)"
        by (simp only: float_add_None)
      with a b have "Some PosInf \<in> set xs \<and> Some NegInf \<in> set xs"
        by metis
      with inf show False
        by blast
    qed
    then obtain v where "float_add (s ! (n div 2 - 1)) (s ! (n div 2)) = Some v"
      by blast
    with m False show ?thesis
      by simp
  qed
qed

lemma float_half_between:
  assumes "a \<le> b" and "float_add a b = Some c"
  shows "a \<le> float_half c \<and> float_half c \<le> b"
  using assms by (cases a; cases b) auto

lemma count_prefix:
  assumes k: "k \<le> length s" and le: "\<forall>j < k. P (s ! j)"
  shows "k \<le> length (filter P s)"
proof -
  have "filter P (take k s) = take k s"
  proof (rule filter_True, rule ballI)
    fix x assume "x \<in> set (take k s)"
    then obtain j where "j < length (take k s)" and "x = take k s ! j"
      by (metis in_set_conv_nth)
    with k le show "P x"
      by simp
  qed
  then have "length (filter P (take k s)) = k"
    using k by simp
  moreover have "filter P s = filter P (take k s) @ filter P (drop k s)"
    by (metis append_take_drop_id filter_append)
  ultimately show ?thesis
    by simp
qed

lemma count_suffix:
  assumes ge: "\<forall>j. k \<le> j \<and> j < length s \<longrightarrow> P (s ! j)"
  shows "length s - k \<le> length (filter P s)"
proof -
  have "filter P (drop k s) = drop k s"
  proof (rule filter_True, rule ballI)
    fix x assume "x \<in> set (drop k s)"
    then obtain j where j: "j < length (drop k s)" and x: "x = drop k s ! j"
      by (metis in_set_conv_nth)
    from j have "k + j < length s"
      by simp
    with ge have "P (s ! (k + j))"
      by simp
    with x j show "P x"
      by simp
  qed
  then have "length (filter P (drop k s)) = length s - k"
    by simp
  moreover have "filter P s = filter P (take k s) @ filter P (drop k s)"
    by (metis append_take_drop_id filter_append)
  ultimately show ?thesis
    by simp
qed

lemma length_filter_mset:
  "mset xs = mset ys \<Longrightarrow> length (filter P xs) = length (filter P ys)"
  by (metis mset_filter size_mset)

text \<open>The median that pandas computes is a median in the specification's sense.\<close>

lemma median_is_median:
  assumes "median xs = Some m"
  shows "is_median m (dropna xs)"
proof -
  define s where "s = sort (dropna xs)"
  define n where "n = length s"
  have sorted: "sorted s" and ms: "mset s = mset (dropna xs)"
    by (simp_all add: s_def)
  have "dropna xs \<noteq> []"
  proof
    assume "dropna xs = []"
    then have "median xs = None"
      by (simp add: median_def)
    with assms show False
      by simp
  qed
  then have pos: "0 < n"
    by (simp add: n_def s_def)
  have mono: "s ! i \<le> s ! j" if "i \<le> j" and "j < n" for i j
    using sorted that unfolding n_def by (rule sorted_nth_mono)
  have m: "median xs = (if odd n then Some (s ! (n div 2))
      else map_option float_half (float_add (s ! (n div 2 - 1)) (s ! (n div 2))))"
  proof -
    from pos have "s \<noteq> []"
      by (auto simp: n_def)
    then show ?thesis
      by (simp add: median_def Let_def s_def [symmetric] n_def [symmetric])
  qed
  have counts: "n \<le> 2 * length (filter (\<lambda>v. v \<le> m) s) \<and> n \<le> 2 * length (filter (\<lambda>v. m \<le> v) s)"
  proof (cases "odd n")
    case True
    with m assms have e: "m = s ! (n div 2)"
      by simp
    from pos have half: "n div 2 < n"
      by simp
    have "\<forall>j < n div 2 + 1. s ! j \<le> m"
    proof (intro allI impI)
      fix j assume "j < n div 2 + 1"
      then have "j \<le> n div 2"
        by simp
      then show "s ! j \<le> m"
        unfolding e using half by (rule mono)
    qed
    moreover from half have "n div 2 + 1 \<le> length s"
      by (simp add: n_def)
    ultimately have lo: "n div 2 + 1 \<le> length (filter (\<lambda>v. v \<le> m) s)"
      by (intro count_prefix)
    have "\<forall>j. n div 2 \<le> j \<and> j < length s \<longrightarrow> m \<le> s ! j"
    proof (intro allI impI)
      fix j assume "n div 2 \<le> j \<and> j < length s"
      then have "n div 2 \<le> j" and "j < n"
        by (simp_all add: n_def)
      then show "m \<le> s ! j"
        unfolding e by (rule mono)
    qed
    then have "length s - n div 2 \<le> length (filter (\<lambda>v. m \<le> v) s)"
      by (rule count_suffix)
    then have hi: "n - n div 2 \<le> length (filter (\<lambda>v. m \<le> v) s)"
      by (simp only: n_def)
    from lo hi show ?thesis
      by linarith
  next
    case False
    define k where "k = n div 2"
    from False pos have k: "0 < k" "k < n" "2 * k = n"
      unfolding k_def by presburger+
    from m assms False have "map_option float_half (float_add (s ! (k - 1)) (s ! k)) = Some m"
      by (simp add: k_def)
    then obtain c where c: "float_add (s ! (k - 1)) (s ! k) = Some c" and e: "m = float_half c"
      by (cases "float_add (s ! (k - 1)) (s ! k)") simp_all
    from k have "k - 1 \<le> k" and "k < n"
      by simp_all
    then have "s ! (k - 1) \<le> s ! k"
      by (rule mono)
    from float_half_between [OF this c] e have a: "s ! (k - 1) \<le> m" and b: "m \<le> s ! k"
      by simp_all
    have "\<forall>j < k. s ! j \<le> m"
    proof (intro allI impI)
      fix j assume "j < k"
      with k have "j \<le> k - 1" and "k - 1 < n"
        by simp_all
      then have "s ! j \<le> s ! (k - 1)"
        by (rule mono)
      then show "s ! j \<le> m"
        using a by (rule order_trans)
    qed
    moreover from k have "k \<le> length s"
      by (simp add: n_def)
    ultimately have lo: "k \<le> length (filter (\<lambda>v. v \<le> m) s)"
      by (intro count_prefix)
    have "\<forall>j. k \<le> j \<and> j < length s \<longrightarrow> m \<le> s ! j"
    proof (intro allI impI)
      fix j assume "k \<le> j \<and> j < length s"
      then have "k \<le> j" and "j < n"
        by (simp_all add: n_def)
      then have "s ! k \<le> s ! j"
        by (rule mono)
      with b show "m \<le> s ! j"
        by (rule order_trans)
    qed
    then have "length s - k \<le> length (filter (\<lambda>v. m \<le> v) s)"
      by (rule count_suffix)
    then have hi: "n - k \<le> length (filter (\<lambda>v. m \<le> v) s)"
      by (simp only: n_def)
    from lo hi k show ?thesis
      by linarith
  qed
  have len: "length (dropna xs) = n"
    by (simp add: n_def s_def)
  have "length (filter (\<lambda>v. v \<le> m) s) = length (filter (\<lambda>v. v \<le> m) (dropna xs))"
    and "length (filter (\<lambda>v. m \<le> v) s) = length (filter (\<lambda>v. m \<le> v) (dropna xs))"
    using ms by (rule length_filter_mset)+
  with counts show ?thesis
    unfolding is_median_def len by (simp only:)
qed

lemmas clean_eval = clean_def drop_column_def getitem_def setitem_def columns_def median_def
  dropna_def fillna_def isnull_sum_def parse_decimal_def digit_val_def churn_dict_def

lemma series_map_churn_nth:
  "i < length ss \<Longrightarrow> series_map churn_dict (ObjCol ss) ! i =
     (if ss ! i = Some ''No'' then Some (Finite 0)
      else if ss ! i = Some ''Yes'' then Some (Finite 1) else None)"
  by (cases "ss ! i") (simp_all add: churn_dict_def)

lemma series_map_churn_binary:
  "set ss \<subseteq> {Some ''No'', Some ''Yes''} \<Longrightarrow>
     set (series_map churn_dict (ObjCol ss)) \<subseteq> {Some (Finite 0), Some (Finite 1)}"
  by (auto simp: churn_dict_def split: option.splits)

lemma count_binary:
  "set ys \<subseteq> {a, b} \<Longrightarrow> a \<noteq> b \<Longrightarrow> count_list ys a + count_list ys b = length ys"
  by (induction ys) auto

lemma set_setitem: "set (setitem df name c) \<subseteq> insert (name, c) (set df)"
  by (auto simp: setitem_def split: if_splits)

lemma set_drop: "drop_column df name = Inr df' \<Longrightarrow> set df' \<subseteq> set df"
  by (auto simp: drop_column_def split: if_splits)

lemma length_to_numeric: "length (to_numeric parse c) = col_len c"
  by (cases c) simp_all

lemma length_series_map: "length (series_map d c) = col_len c"
  by (cases c) simp_all

lemma length_fillna: "length (fillna xs v) = length xs"
  by (simp add: fillna_def)

lemma clean_columns_len:
  assumes wf: "wf_df df" and c: "fst (clean parse df) = Inr df'"
  shows "\<forall>c \<in> set (map snd df'). col_len c = nrows df"
proof -
  from c obtain df1 raw churn where d: "drop_column df ''customerID'' = Inr df1"
    and r: "map_of df ''TotalCharges'' = Some raw"
    and ch: "map_of df ''Churn'' = Some churn"
    and e: "df' = setitem (setitem (setitem df1 ''TotalCharges'' (NumCol (to_numeric parse raw)))
             ''TotalCharges'' (NumCol (fillna (to_numeric parse raw) (median (to_numeric parse raw)))))
             ''Churn'' (NumCol (series_map churn_dict churn))"
    by (rule clean_Inr)
  from wf have len: "\<And>n c. (n, c) \<in> set df \<Longrightarrow> col_len c = nrows df"
    by (auto simp: wf_df_def)
  from r have "col_len raw = nrows df"
    by (auto dest: map_of_SomeD len)
  moreover from ch have "col_len churn = nrows df"
    by (auto dest: map_of_SomeD len)
  moreover have "set df' \<subseteq> {(''Churn'', NumCol (series_map churn_dict churn)),
      (''TotalCharges'', NumCol (fillna (to_numeric parse raw) (median (to_numeric parse raw)))),
      (''TotalCharges'', NumCol (to_numeric parse raw))} \<union> set df"
  proof -
    let ?a = "setitem df1 ''TotalCharges'' (NumCol (to_numeric parse raw))"
    let ?b = "setitem ?a ''TotalCharges''
      (NumCol (fillna (to_numeric parse raw) (median (to_numeric parse raw))))"
    have "set ?a \<subseteq> insert (''TotalCharges'', NumCol (to_numeric parse raw)) (set df)"
      using set_setitem [of df1] set_drop [OF d] by blast
    moreover have "set ?b \<subseteq> insert (''TotalCharges'',
        NumCol (fillna (to_numeric parse raw) (median (to_numeric parse raw)))) (set ?a)"
      by (rule set_setitem)
    moreover have "set df' \<subseteq> insert (''Churn'', NumCol (series_map churn_dict churn)) (set ?b)"
      unfolding e by (rule set_setitem)
    ultimately show ?thesis
      by blast
  qed
  ultimately show ?thesis
    using len by (auto simp: length_to_numeric length_series_map length_fillna)
qed

lemma clean_nrows:
  assumes wf: "wf_df df" and c: "fst (clean parse df) = Inr df'"
  shows "nrows df' = nrows df"
proof -
  from c have "map_of df' ''Churn'' \<noteq> None"
    by (rule clean_Inr) (simp add: map_of_setitem)
  then obtain n c0 rest where "df' = (n, c0) # rest"
    by (cases df') auto
  then show ?thesis
    using clean_columns_len [OF wf c] by (simp add: nrows_def)
qed

lemma length_filter_distinct:
  "distinct xs \<Longrightarrow> x \<in> set xs \<Longrightarrow> length (filter (\<lambda>n. n \<noteq> x) xs) + 1 = length xs"
proof (induction xs)
  case Nil
  then show ?case by simp
next
  case (Cons a xs)
  show ?case
  proof (cases "a = x")
    case True
    with Cons.prems have "filter (\<lambda>n. n \<noteq> x) xs = xs"
      by (auto simp: filter_id_conv)
    with True show ?thesis by simp
  next
    case False
    with Cons show ?thesis by simp
  qed
qed

lemma clean_columns:
  assumes c: "fst (clean parse df) = Inr df'"
  shows "columns df' = filter (\<lambda>n. n \<noteq> ''customerID'') (columns df)"
    and "''customerID'' \<in> set (columns df)"
proof -
  from c obtain df1 raw churn where d: "drop_column df ''customerID'' = Inr df1"
    and r: "map_of df ''TotalCharges'' = Some raw"
    and ch: "map_of df ''Churn'' = Some churn"
    and e: "df' = setitem (setitem (setitem df1 ''TotalCharges'' (NumCol (to_numeric parse raw)))
             ''TotalCharges'' (NumCol (fillna (to_numeric parse raw) (median (to_numeric parse raw)))))
             ''Churn'' (NumCol (series_map churn_dict churn))"
    by (rule clean_Inr)
  from d show "''customerID'' \<in> set (columns df)"
    by (simp add: drop_column_def split: if_splits)
  have tc: "''TotalCharges'' \<in> set (columns df1)"
    using r by (simp add: in_columns_iff map_of_drop [OF d])
  have chn: "''Churn'' \<in> set (columns df1)"
    using ch by (simp add: in_columns_iff map_of_drop [OF d])
  show "columns df' = filter (\<lambda>n. n \<noteq> ''customerID'') (columns df)"
    unfolding e using tc chn by (simp add: columns_setitem columns_drop [OF d])
qed

text \<open>
  C10. Cleaning is frame-limited. When the cleaning cell returns a table, its columns
  are the input's columns without the identifier, in the same order (exactly one column
  fewer); every column other than the identifier, the total-charge column and the label
  column is the same list of values, in the same row order; the row count is unchanged
  and every column still has one entry per row.
\<close>

theorem clean_frame:
  assumes wf: "wf_df df" and c: "fst (clean parse df) = Inr df'"
  shows "columns df' = filter (\<lambda>n. n \<noteq> ''customerID'') (columns df)
     \<and> length (columns df') + 1 = length (columns df)
     \<and> (\<forall>n. n \<notin> {''customerID'', ''TotalCharges'', ''Churn''} \<longrightarrow> map_of df' n = map_of df n)
     \<and> nrows df' = nrows df
     \<and> (\<forall>c \<in> set (map snd df'). col_len c = nrows df)"
proof -
  have cols: "columns df' = filter (\<lambda>n. n \<noteq> ''customerID'') (columns df)"
    using c by (rule clean_columns)
  have "''customerID'' \<in> set (columns df)"
    using c by (rule clean_columns)
  moreover from wf have "distinct (columns df)"
    by (simp add: wf_df_def)
  ultimately have one: "length (columns df') + 1 = length (columns df)"
    unfolding cols by (simp only: length_filter_distinct)
  have other: "\<forall>n. n \<notin> {''customerID'', ''TotalCharges'', ''Churn''} \<longrightarrow> map_of df' n = map_of df n"
    using c by (rule clean_Inr) (simp add: map_of_setitem map_of_drop)
  from cols one other clean_nrows [OF wf c] clean_columns_len [OF wf c] show ?thesis
    by blast
qed

theorem clean_frame_witness:
  "wf_df example_table
   \<and> fst (clean parse_decimal example_table) = Inr example_cleaned
   \<and> columns example_cleaned = [''tenure'', ''TotalCharges'', ''Churn'']
   \<and> map_of example_cleaned ''tenure'' = map_of example_table ''tenure''
   \<and> nrows example_cleaned = 3
   \<and> nrows example_table = 3"
proof -
  have wf: "wf_df example_table"
    by (simp add: wf_df_def example_table_def columns_def nrows_def)
  have c: "fst (clean parse_decimal example_table) = Inr example_cleaned"
    by (simp add: example_table_def example_cleaned_def clean_eval)
  from clean_frame [OF wf c] wf c show ?thesis
    by (simp add: example_table_def example_cleaned_def columns_def nrows_def)
qed

lemma clean_label_spec:
  assumes wf: "wf_df df" and c: "fst (clean parse df) = Inr df'"
    and g: "getitem df ''Churn'' = Inr (ObjCol ss)"
  shows "\<exists>ys. getitem df' ''Churn'' = Inr (NumCol ys) \<and> length ys = nrows df'
     \<and> (\<forall>i < length ys. ys ! i =
          (if ss ! i = Some ''No'' then Some (Finite 0)
           else if ss ! i = Some ''Yes'' then Some (Finite 1) else None))
     \<and> (set ss \<subseteq> {Some ''No'', Some ''Yes''} \<longrightarrow>
          set ys \<subseteq> {Some (Finite 0), Some (Finite 1)}
          \<and> count_list ys (Some (Finite 1)) + count_list ys (Some (Finite 0)) = nrows df')"
proof -
  from c obtain churn where m: "map_of df ''Churn'' = Some churn"
    and d: "map_of df' ''Churn'' = Some (NumCol (series_map churn_dict churn))"
    by (rule clean_Inr) (simp add: map_of_setitem)
  from m g have churn: "churn = ObjCol ss"
    by (simp add: getitem_Inr)
  let ?ys = "series_map churn_dict (ObjCol ss)"
  have get: "getitem df' ''Churn'' = Inr (NumCol ?ys)"
    using d churn by (simp add: getitem_Inr)
  from d churn have "(''Churn'', NumCol ?ys) \<in> set df'"
    by (auto dest: map_of_SomeD)
  then have "col_len (NumCol ?ys) = nrows df"
    using clean_columns_len [OF wf c] by force
  then have len: "length ?ys = nrows df'"
    using clean_nrows [OF wf c] by simp
  have nth: "\<forall>i < length ?ys. ?ys ! i =
          (if ss ! i = Some ''No'' then Some (Finite 0)
           else if ss ! i = Some ''Yes'' then Some (Finite 1) else None)"
    using series_map_churn_nth by simp
  have "set ss \<subseteq> {Some ''No'', Some ''Yes''} \<longrightarrow>
          set ?ys \<subseteq> {Some (Finite 0), Some (Finite 1)}
          \<and> count_list ?ys (Some (Finite 1)) + count_list ?ys (Some (Finite 0)) = nrows df'"
  proof
    assume "set ss \<subseteq> {Some ''No'', Some ''Yes''}"
    then have b: "set ?ys \<subseteq> {Some (Finite 0), Some (Finite 1)}"
      by (rule series_map_churn_binary)
    then have "set ?ys \<subseteq> {Some (Finite 1), Some (Finite 0)}"
      by blast
    then have "count_list ?ys (Some (Finite 1)) + count_list ?ys (Some (Finite 0)) = length ?ys"
      by (rule count_binary) simp
    with b len show "set ?ys \<subseteq> {Some (Finite 0), Some (Finite 1)}
          \<and> count_list ?ys (Some (Finite 1)) + count_list ?ys (Some (Finite 0)) = nrows df'"
      by simp
  qed
  with get len nth show ?thesis
    by blast
qed

text \<open>
  C1 (as amended). On a table with the three columns the cleaner names and a text
  label column, the cleaning cell returns, whatever the labels are. It maps the label
  No to 0 and Yes to 1, row by row, and any other label value to a missing label.
  When every label of the table is No or Yes, the cleaned label column holds only 0 and
  1, and the count of 1s plus the count of 0s is the row count.
\<close>

theorem clean_label:
  assumes wf: "wf_df df"
    and id: "''customerID'' \<in> set (columns df)"
    and tc: "''TotalCharges'' \<in> set (columns df)"
    and g: "getitem df ''Churn'' = Inr (ObjCol ss)"
  shows "\<exists>df' ys. fst (clean parse df) = Inr df'
     \<and> getitem df' ''Churn'' = Inr (NumCol ys) \<and> length ys = nrows df'
     \<and> (\<forall>i < length ys. ys ! i =
          (if ss ! i = Some ''No'' then Some (Finite 0)
           else if ss ! i = Some ''Yes'' then Some (Finite 1) else None))
     \<and> (set ss \<subseteq> {Some ''No'', Some ''Yes''} \<longrightarrow>
          set ys \<subseteq> {Some (Finite 0), Some (Finite 1)}
          \<and> count_list ys (Some (Finite 1)) + count_list ys (Some (Finite 0)) = nrows df')"
proof -
  from g have "''Churn'' \<in> set (columns df)"
    by (simp add: getitem_Inr in_columns_iff)
  with id tc obtain df' where c: "fst (clean parse df) = Inr df'"
    using clean_returns by blast
  from clean_label_spec [OF wf c g] c show ?thesis
    by blast
qed

theorem clean_label_witness:
  "wf_df example_table
   \<and> ''customerID'' \<in> set (columns example_table)
   \<and> ''TotalCharges'' \<in> set (columns example_table)
   \<and> getitem example_table ''Churn'' = Inr (ObjCol [Some ''No'', Some ''Yes'', Some ''No''])
   \<and> set [Some ''No'', Some ''Yes'', Some ''No''] \<subseteq> {Some ''No'', Some ''Yes''}
   \<and> fst (clean parse_decimal example_table) = Inr example_cleaned
   \<and> (\<exists>df' ys. fst (clean parse_decimal example_table) = Inr df'
        \<and> getitem df' ''Churn'' = Inr (NumCol ys)
        \<and> set ys \<subseteq> {Some (Finite 0), Some (Finite 1)}
        \<and> count_list ys (Some (Finite 1)) + count_list ys (Some (Finite 0)) = nrows df')"
proof -
  have wf: "wf_df example_table"
    by (simp add: wf_df_def example_table_def columns_def nrows_def)
  have id: "''customerID'' \<in> set (columns example_table)"
    and tc: "''TotalCharges'' \<in> set (columns example_table)"
    by (simp_all add: example_table_def columns_def)
  have g: "getitem example_table ''Churn'' = Inr (ObjCol [Some ''No'', Some ''Yes'', Some ''No''])"
    by (simp add: example_table_def getitem_def)
  have s: "set [Some ''No'', Some ''Yes'', Some ''No''] \<subseteq> {Some ''No'', Some ''Yes''}"
    by simp
  have c: "fst (clean parse_decimal example_table) = Inr example_cleaned"
    by (simp add: example_table_def example_cleaned_def clean_eval)
  from clean_label [OF wf id tc g, of parse_decimal] s
  have "\<exists>df' ys. fst (clean parse_decimal example_table) = Inr df'
        \<and> getitem df' ''Churn'' = Inr (NumCol ys)
        \<and> set ys \<subseteq> {Some (Finite 0), Some (Finite 1)}
        \<and> count_list ys (Some (Finite 1)) + count_list ys (Some (Finite 0)) = nrows df'"
    by blast
  with wf id tc g s c show ?thesis
    by blast
qed

text \<open>
  The claim as first stated fails: the label Maybe is turned into a missing label, the
  cell returns a table and prints nothing but its two usual lines.
\<close>

theorem clean_label_counterexample:
  "clean parse_decimal maybe_table =
     (Inr [(''TotalCharges'', NumCol [Some (Finite 10), Some (Finite 30)]),
           (''Churn'', NumCol [Some (Finite 0), None])],
      [TextNat ''NaNs in TotalCharges after conversion: '' 0, Text ''Cleaned dataset info:''])"
  by (simp add: maybe_table_def clean_eval)

lemma clean_total_charges_spec:
  assumes c: "fst (clean parse df) = Inr df'"
    and g: "getitem df ''TotalCharges'' = Inr raw"
    and some: "dropna (to_numeric parse raw) \<noteq> []"
    and inf: "Some PosInf \<notin> set (to_numeric parse raw) \<or> Some NegInf \<notin> set (to_numeric parse raw)"
  shows "\<exists>m xs. median (to_numeric parse raw) = Some m
     \<and> is_median m (dropna (to_numeric parse raw))
     \<and> getitem df' ''TotalCharges'' = Inr (NumCol xs)
     \<and> None \<notin> set xs
     \<and> length xs = col_len raw
     \<and> (\<forall>i < length xs. xs ! i =
          (case to_numeric parse raw ! i of None \<Rightarrow> Some m | Some v \<Rightarrow> Some v))"
proof -
  let ?tc = "to_numeric parse raw"
  from some inf obtain m where m: "median ?tc = Some m"
    using median_Some by blast
  let ?xs = "fillna ?tc (Some m)"
  from c g have "getitem df' ''TotalCharges'' = Inr (NumCol ?xs)"
    by (elim clean_Inr) (simp add: getitem_Inr map_of_setitem m)
  moreover have "None \<notin> set ?xs"
    by (auto simp: fillna_def split: option.splits)
  moreover have "length ?xs = col_len raw"
    by (simp add: length_fillna length_to_numeric)
  moreover have "\<forall>i < length ?xs. ?xs ! i =
          (case ?tc ! i of None \<Rightarrow> Some m | Some v \<Rightarrow> Some v)"
    by (simp add: fillna_def)
  ultimately show ?thesis
    using m median_is_median [OF m] by blast
qed

text \<open>
  C2 (as amended). On a table with the three columns the cleaner names, the cleaning
  cell returns: numeric coercion of the total-charge column does not raise, an entry
  that does not parse becomes missing. When at least one entry of the column is a
  number after coercion, and the column does not hold both plus infinity and minus
  infinity, the median of its numbers exists: at least half of the numbers are at most
  the median and at least half are at least the median. Every missing entry is
  replaced by that median (taken over the whole table, before any split), every other
  entry keeps its number, and the cleaned column has no missing value.
\<close>

theorem clean_total_charges:
  assumes id: "''customerID'' \<in> set (columns df)"
    and ch: "''Churn'' \<in> set (columns df)"
    and g: "getitem df ''TotalCharges'' = Inr raw"
    and some: "dropna (to_numeric parse raw) \<noteq> []"
    and inf: "Some PosInf \<notin> set (to_numeric parse raw) \<or> Some NegInf \<notin> set (to_numeric parse raw)"
  shows "\<exists>df' m xs. fst (clean parse df) = Inr df'
     \<and> median (to_numeric parse raw) = Some m
     \<and> is_median m (dropna (to_numeric parse raw))
     \<and> getitem df' ''TotalCharges'' = Inr (NumCol xs)
     \<and> None \<notin> set xs
     \<and> length xs = col_len raw
     \<and> (\<forall>i < length xs. xs ! i =
          (case to_numeric parse raw ! i of None \<Rightarrow> Some m | Some v \<Rightarrow> Some v))"
proof -
  from g have "''TotalCharges'' \<in> set (columns df)"
    by (simp add: getitem_Inr in_columns_iff)
  with id ch obtain df' where c: "fst (clean parse df) = Inr df'"
    using clean_returns by blast
  from clean_total_charges_spec [OF c g some inf] c show ?thesis
    by blast
qed

theorem clean_total_charges_witness:
  "''customerID'' \<in> set (columns example_table)
   \<and> ''Churn'' \<in> set (columns example_table)
   \<and> getitem example_table ''TotalCharges'' = Inr (ObjCol [Some ''10'', Some '' '', Some ''30''])
   \<and> to_numeric parse_decimal (ObjCol [Some ''10'', Some '' '', Some ''30''])
       = [Some (Finite 10), None, Some (Finite 30)]
   \<and> dropna [Some (Finite 10), None, Some (Finite 30)] \<noteq> []
   \<and> Some PosInf \<notin> set [Some (Finite 10), None, Some (Finite 30)]
   \<and> median [Some (Finite 10), None, Some (Finite 30)] = Some (Finite 20)
   \<and> fst (clean parse_decimal example_table) = Inr example_cleaned
   \<and> (\<exists>df' xs. fst (clean parse_decimal example_table) = Inr df'
        \<and> getitem df' ''TotalCharges'' = Inr (NumCol xs) \<and> None \<notin> set xs)"
proof -
  let ?raw = "ObjCol [Some ''10'', Some '' '', Some ''30'']"
  have id: "''customerID'' \<in> set (columns example_table)"
    and ch: "''Churn'' \<in> set (columns example_table)"
    by (simp_all add: example_table_def columns_def)
  have g: "getitem example_table ''TotalCharges'' = Inr ?raw"
    by (simp add: example_table_def getitem_def)
  have tc: "to_numeric parse_decimal ?raw = [Some (Finite 10), None, Some (Finite 30)]"
    by (simp add: parse_decimal_def digit_val_def)
  have some: "dropna (to_numeric parse_decimal ?raw) \<noteq> []"
    unfolding tc by (simp add: dropna_def)
  have inf: "Some PosInf \<notin> set (to_numeric parse_decimal ?raw)
      \<or> Some NegInf \<notin> set (to_numeric parse_decimal ?raw)"
    unfolding tc by simp
  have d: "dropna [Some (Finite 10), None, Some (Finite 30)] \<noteq> []"
    by (simp add: dropna_def)
  have p: "Some PosInf \<notin> set [Some (Finite 10), None, Some (Finite 30)]"
    by simp
  have m: "median [Some (Finite 10), None, Some (Finite 30)] = Some (Finite 20)"
    by (simp add: median_def dropna_def)
  have c: "fst (clean parse_decimal example_table) = Inr example_cleaned"
    by (simp add: example_table_def example_cleaned_def clean_eval)
  from clean_total_charges [OF id ch g some inf]
  have "\<exists>df' xs. fst (clean parse_decimal example_table) = Inr df'
        \<and> getitem df' ''TotalCharges'' = Inr (NumCol xs) \<and> None \<notin> set xs"
    by blast
  with id ch g tc d p m c show ?thesis
    by blast
qed

text \<open>
  The claim as first stated fails on a table whose total-charge entries are all blank:
  there is no median, and the missing entry stays missing.
\<close>

theorem clean_total_charges_counterexample:
  "clean parse_decimal blank_table =
     (Inr [(''TotalCharges'', NumCol [None]), (''Churn'', NumCol [Some (Finite 0)])],
      [TextNat ''NaNs in TotalCharges after conversion: '' 1, Text ''Cleaned dataset info:''])"
  by (simp add: blank_table_def clean_eval)

text \<open>
  It fails as well on a table whose total charges hold minus infinity, plus infinity
  and a blank: the median of the two infinities is NaN, and the blank stays missing
  although two entries are numbers.
\<close>

lemma infinite_charges_stay_missing:
  "clean parse_decimal infinite_table =
     (Inr [(''TotalCharges'', NumCol [Some NegInf, None, Some PosInf]),
           (''Churn'', NumCol [Some (Finite 0), Some (Finite 1), Some (Finite 0)])],
      [TextNat ''NaNs in TotalCharges after conversion: '' 1, Text ''Cleaned dataset info:''])"
  by (simp add: infinite_table_def clean_eval)

section \<open>Properties of the evaluation\<close>

lemma index_of_less: "v \<in> set cs \<Longrightarrow> index_of cs v < length cs"
  by (induction cs) auto

lemma nth_index_of: "v \<in> set cs \<Longrightarrow> cs ! index_of cs v = v"
  by (induction cs) auto

lemma index_of_nth: "distinct cs \<Longrightarrow> a < length cs \<Longrightarrow> index_of cs (cs ! a) = a"
proof (induction cs arbitrary: a)
  case Nil
  then show ?case by simp
next
  case (Cons c cs)
  show ?case
  proof (cases a)
    case 0
    then show ?thesis by simp
  next
    case (Suc k)
    with Cons.prems have k: "k < length cs" and d: "distinct cs" and "c \<notin> set cs"
      by simp_all
    then have "c \<noteq> cs ! k"
      by (metis nth_mem)
    with Cons.IH [OF d k] Suc show ?thesis
      by simp
  qed
qed

lemma add_entry_shape:
  assumes "length m = n" and "\<forall>r \<in> set m. length r = n" and "i < n"
  shows "length (add_entry m (i, j)) = n" and "\<forall>r \<in> set (add_entry m (i, j)). length r = n"
proof -
  from assms(1) show "length (add_entry m (i, j)) = n"
    by (simp add: add_entry_def)
  from assms(1,3) have "m ! i \<in> set m"
    by simp
  with assms(2) have "length ((m ! i)[j := m ! i ! j + 1]) = n"
    by simp
  moreover have "set (add_entry m (i, j)) \<subseteq> insert ((m ! i)[j := m ! i ! j + 1]) (set m)"
    unfolding add_entry_def prod.case by (rule set_update_subset_insert)
  ultimately show "\<forall>r \<in> set (add_entry m (i, j)). length r = n"
    using assms(2) by auto
qed

lemma add_entry_nth:
  assumes "length m = n" and "\<forall>r \<in> set m. length r = n"
    and "i < n" and "j < n" and "a < n" and "b < n"
  shows "add_entry m (i, j) ! a ! b = m ! a ! b + (if a = i \<and> b = j then 1 else 0)"
proof -
  from assms(1,3) have "m ! i \<in> set m"
    by simp
  with assms(2) have "length (m ! i) = n"
    by simp
  with assms show ?thesis
    by (simp add: add_entry_def nth_list_update)
qed

text \<open>
  Adding the rows one by one leaves in every cell the number of rows with the
  coordinates of that cell.
\<close>

lemma foldl_add_entry:
  assumes "length m = n" and "\<forall>r \<in> set m. length r = n"
    and "\<forall>p \<in> set ps. fst p < n \<and> snd p < n"
  shows "length (foldl add_entry m ps) = n
       \<and> (\<forall>r \<in> set (foldl add_entry m ps). length r = n)
       \<and> (\<forall>a < n. \<forall>b < n. foldl add_entry m ps ! a ! b
             = m ! a ! b + length (filter (\<lambda>p. fst p = a \<and> snd p = b) ps))"
  using assms
proof (induction ps arbitrary: m)
  case Nil
  then show ?case by simp
next
  case (Cons p ps)
  obtain i j where p: "p = (i, j)"
    by (cases p)
  from Cons.prems(3) p have i: "i < n" and j: "j < n"
    by simp_all
  note shape = add_entry_shape [OF Cons.prems(1) Cons.prems(2) i, of j]
  from Cons.prems(3) have rest: "\<forall>p \<in> set ps. fst p < n \<and> snd p < n"
    by simp
  note ih = Cons.IH [OF shape rest]
  have "foldl add_entry m (p # ps) ! a ! b
      = m ! a ! b + length (filter (\<lambda>p. fst p = a \<and> snd p = b) (p # ps))"
    if a: "a < n" and b: "b < n" for a b
  proof -
    from ih a b have "foldl add_entry (add_entry m (i, j)) ps ! a ! b
        = add_entry m (i, j) ! a ! b + length (filter (\<lambda>p. fst p = a \<and> snd p = b) ps)"
      by blast
    also have "add_entry m (i, j) ! a ! b = m ! a ! b + (if a = i \<and> b = j then 1 else 0)"
      using Cons.prems(1) Cons.prems(2) i j a b by (rule add_entry_nth)
    finally show ?thesis
      unfolding p by auto
  qed
  with ih show ?case
    unfolding p by simp
qed

lemma distinct_unique_labels: "distinct (unique_labels y_true y_pred)"
  by (simp add: unique_labels_def)

lemma set_unique_labels: "set (unique_labels y_true y_pred) = set y_true \<union> set y_pred"
  by (simp add: unique_labels_def)

text \<open>
  The confusion matrix, cell by cell: the cell in row \<open>a\<close> and column \<open>b\<close> is the
  number of rows of the test partition whose actual label is the \<open>a\<close>-th label and
  whose predicted label is the \<open>b\<close>-th label.
\<close>

lemma confusion_matrix_counts:
  assumes ok: "check_targets y_true y_pred = Inr ()"
  shows "confusion_matrix y_true y_pred =
     Inr (map (\<lambda>a. map (\<lambda>b. count_rows y_true y_pred a b) (unique_labels y_true y_pred))
            (unique_labels y_true y_pred))"
proof -
  define L where "L = unique_labels y_true y_pred"
  define n where "n = length L"
  define ps where "ps = zip (map (index_of L) y_true) (map (index_of L) y_pred)"
  define cm where "cm = foldl add_entry (replicate n (replicate n 0)) ps"
  have dL: "distinct L" and sL: "set L = set y_true \<union> set y_pred"
    by (simp_all add: L_def distinct_unique_labels set_unique_labels)
  have ps_map: "ps = map (\<lambda>x. (index_of L (fst x), index_of L (snd x))) (zip y_true y_pred)"
    unfolding ps_def by (simp add: zip_map_map case_prod_beta)
  have mem: "fst x \<in> set L \<and> snd x \<in> set L" if "x \<in> set (zip y_true y_pred)" for x
  proof -
    from that have "fst x \<in> set y_true" and "snd x \<in> set y_pred"
      by (metis prod.collapse set_zip_leftD, metis prod.collapse set_zip_rightD)
    then show ?thesis
      by (simp add: sL)
  qed
  have below: "\<forall>p \<in> set ps. fst p < n \<and> snd p < n"
    unfolding ps_map n_def using mem by (auto intro: index_of_less)
  have "length (replicate n (replicate n (0::nat))) = n"
    and "\<forall>r \<in> set (replicate n (replicate n (0::nat))). length r = n"
    by simp_all
  from foldl_add_entry [OF this below]
  have len: "length cm = n" and rows: "\<forall>r \<in> set cm. length r = n"
    and cell: "\<forall>a < n. \<forall>b < n. cm ! a ! b
        = replicate n (replicate n 0) ! a ! b + length (filter (\<lambda>p. fst p = a \<and> snd p = b) ps)"
    unfolding cm_def by blast+
  have count: "length (filter (\<lambda>p. fst p = a \<and> snd p = b) ps) = count_rows y_true y_pred (L ! a) (L ! b)"
    if a: "a < n" and b: "b < n" for a b
  proof -
    have "filter (\<lambda>x. index_of L (fst x) = a \<and> index_of L (snd x) = b) (zip y_true y_pred)
        = filter (\<lambda>x. fst x = L ! a \<and> snd x = L ! b) (zip y_true y_pred)"
    proof (rule filter_cong [OF refl])
      fix x assume "x \<in> set (zip y_true y_pred)"
      with mem have m: "fst x \<in> set L" "snd x \<in> set L"
        by blast+
      have "index_of L v = k \<longleftrightarrow> v = L ! k" if "v \<in> set L" and "k < n" for v k
        using nth_index_of [OF that(1)] index_of_nth [OF dL] that(2) unfolding n_def by metis
      with m a b show "(index_of L (fst x) = a \<and> index_of L (snd x) = b)
          = (fst x = L ! a \<and> snd x = L ! b)"
        by blast
    qed
    then show ?thesis
      unfolding ps_map count_rows_def by (simp add: filter_map comp_def)
  qed
  have "cm = map (\<lambda>a. map (\<lambda>b. count_rows y_true y_pred a b) L) L"
  proof (rule nth_equalityI)
    show "length cm = length (map (\<lambda>a. map (\<lambda>b. count_rows y_true y_pred a b) L) L)"
      by (simp add: len n_def)
  next
    fix a assume "a < length cm"
    with len have a: "a < n"
      by simp
    with len rows have la: "length (cm ! a) = n"
      by simp
    have "cm ! a = map (\<lambda>b. count_rows y_true y_pred (L ! a) b) L"
    proof (rule nth_equalityI)
      show "length (cm ! a) = length (map (\<lambda>b. count_rows y_true y_pred (L ! a) b) L)"
        by (simp add: la n_def)
    next
      fix b assume "b < length (cm ! a)"
      with la have b: "b < n"
        by simp
      from cell a b have "cm ! a ! b = length (filter (\<lambda>p. fst p = a \<and> snd p = b) ps)"
        by simp
      with count [OF a b] b show "cm ! a ! b = map (\<lambda>b. count_rows y_true y_pred (L ! a) b) L ! b"
        by (simp add: n_def)
    qed
    with a show "cm ! a = map (\<lambda>a. map (\<lambda>b. count_rows y_true y_pred a b) L) L ! a"
      by (simp add: n_def)
  qed
  then show ?thesis
    unfolding confusion_matrix_def ok Let_def cm_def ps_def n_def L_def by simp
qed

lemma sort_remdups_set:
  fixes xs :: "real list"
  assumes "set xs = set ys" and "sorted ys" and "distinct ys"
  shows "sort (remdups xs) = ys"
proof -
  have "sort (remdups xs) = sorted_list_of_set (set xs)"
    by (metis sorted_list_of_set_sort_remdups)
  also have "\<dots> = sorted_list_of_set (set ys)"
    by (simp only: assms(1))
  also from assms(2,3) have "\<dots> = ys"
    by (metis sorted_list_of_set.idem_if_sorted_distinct)
  finally show ?thesis .
qed

lemma unique_labels_cases:
  "set y_true \<union> set y_pred = {0, 1} \<Longrightarrow> unique_labels y_true y_pred = [0, 1]"
  "set y_true \<union> set y_pred = {v} \<Longrightarrow> unique_labels y_true y_pred = [v]"
  unfolding unique_labels_def by (rule sort_remdups_set; simp)+

lemma count_rows_binary_sum:
  fixes ps :: "(real \<times> real) list"
  assumes "\<forall>x \<in> set ps. fst x \<in> {0, 1} \<and> snd x \<in> {0, 1}"
  shows "length (filter (\<lambda>x. fst x = 0 \<and> snd x = 0) ps)
       + length (filter (\<lambda>x. fst x = 0 \<and> snd x = 1) ps)
       + length (filter (\<lambda>x. fst x = 1 \<and> snd x = 0) ps)
       + length (filter (\<lambda>x. fst x = 1 \<and> snd x = 1) ps) = length ps"
  using assms
proof (induction ps)
  case Nil
  show ?case by simp
next
  case (Cons x ps)
  from Cons.prems have mem: "fst x = 0 \<or> fst x = 1" "snd x = 0 \<or> snd x = 1"
    by simp_all
  from Cons.prems have "\<forall>x \<in> set ps. fst x \<in> {0, 1} \<and> snd x \<in> {0, 1}"
    by simp
  then have ih: "length (filter (\<lambda>x. fst x = 0 \<and> snd x = 0) ps)
       + length (filter (\<lambda>x. fst x = 0 \<and> snd x = 1) ps)
       + length (filter (\<lambda>x. fst x = 1 \<and> snd x = 0) ps)
       + length (filter (\<lambda>x. fst x = 1 \<and> snd x = 1) ps) = length ps"
    by (rule Cons.IH)
  from mem show ?case
    using ih by (elim disjE) simp_all
qed

lemma count_rows_binary_diag:
  fixes ps :: "(real \<times> real) list"
  assumes "\<forall>x \<in> set ps. fst x \<in> {0, 1} \<and> snd x \<in> {0, 1}"
  shows "length (filter (\<lambda>x. fst x = 0 \<and> snd x = 0) ps)
       + length (filter (\<lambda>x. fst x = 1 \<and> snd x = 1) ps)
       = length (filter (\<lambda>x. fst x = snd x) ps)"
  using assms
proof (induction ps)
  case Nil
  show ?case by simp
next
  case (Cons x ps)
  from Cons.prems have mem: "fst x = 0 \<or> fst x = 1" "snd x = 0 \<or> snd x = 1"
    by simp_all
  from Cons.prems have "\<forall>x \<in> set ps. fst x \<in> {0, 1} \<and> snd x \<in> {0, 1}"
    by simp
  then have ih: "length (filter (\<lambda>x. fst x = 0 \<and> snd x = 0) ps)
       + length (filter (\<lambda>x. fst x = 1 \<and> snd x = 1) ps)
       = length (filter (\<lambda>x. fst x = snd x) ps)"
    by (rule Cons.IH)
  from mem show ?case
    using ih by (elim disjE) simp_all
qed

lemma count_rows_all:
  assumes "length y_pred = length y_true" and "set y_true \<union> set y_pred = {v}"
  shows "count_rows y_true y_pred v v = length y_true"
proof -
  have "filter (\<lambda>x. fst x = v \<and> snd x = v) (zip y_true y_pred) = zip y_true y_pred"
  proof (rule filter_True, rule ballI)
    fix x assume "x \<in> set (zip y_true y_pred)"
    then have "fst x \<in> set y_true" and "snd x \<in> set y_pred"
      by (metis prod.collapse set_zip_leftD, metis prod.collapse set_zip_rightD)
    with assms(2) show "fst x = v \<and> snd x = v"
      by blast
  qed
  with assms(1) show ?thesis
    by (simp add: count_rows_def)
qed

lemma check_targets_binary:
  assumes "length y_pred = length y_true" and "set y_true \<union> set y_pred \<subseteq> {0, 1}"
  shows "check_targets y_true y_pred = Inr ()"
proof -
  have "integer_valued x" if "x \<in> set y_true \<union> set y_pred" for x
  proof -
    from that assms(2) have "x = 0 \<or> x = 1"
      by blast
    then show ?thesis
      by (auto simp: integer_valued_def)
  qed
  with assms(1) show ?thesis
    by (auto simp: check_targets_def)
qed

text \<open>
  C7 (as amended). For every model, whatever it predicts on the test partition, as
  long as the actual and the predicted labels are 0 or 1: with TN, FP, FN and TP the
  numbers of test rows that are actual 0 and predicted 0, actual 0 and predicted 1,
  actual 1 and predicted 0, actual 1 and predicted 1, the four numbers add up to the
  size of the test partition and the reported accuracy is
  \<open>(TN + TP) / (TN + FP + FN + TP)\<close>. When both labels occur among the actual and
  predicted labels, the matrix that \<^verbatim>\<open>confusion_matrix\<close> returns is the 2 by 2
  matrix \<open>[[TN, FP], [FN, TP]]\<close>, rows actual and columns predicted. When only one
  label occurs among them, the matrix is 1 by 1 and its only cell is the size of the
  test partition.
\<close>

theorem confusion_matrix_accuracy:
  assumes len: "length y_pred = length y_true"
    and nonempty: "y_true \<noteq> []"
    and labels: "set y_true \<union> set y_pred \<subseteq> {0, 1}"
  shows "TN y_true y_pred + FP y_true y_pred + FN y_true y_pred + TP y_true y_pred
           = length y_true
       \<and> accuracy_score y_true y_pred
           = Inr (Some (real (TN y_true y_pred + TP y_true y_pred)
                        / real (TN y_true y_pred + FP y_true y_pred
                                + FN y_true y_pred + TP y_true y_pred)))
       \<and> (set y_true \<union> set y_pred = {0, 1} \<longrightarrow>
            confusion_matrix y_true y_pred
              = Inr [[TN y_true y_pred, FP y_true y_pred], [FN y_true y_pred, TP y_true y_pred]])
       \<and> (set y_true \<union> set y_pred = {0} \<longrightarrow>
            confusion_matrix y_true y_pred = Inr [[length y_true]])
       \<and> (set y_true \<union> set y_pred = {1} \<longrightarrow>
            confusion_matrix y_true y_pred = Inr [[length y_true]])"
proof -
  let ?ps = "zip y_true y_pred"
  note ok = check_targets_binary [OF len labels]
  have bin: "\<forall>x \<in> set ?ps. fst x \<in> {0, 1} \<and> snd x \<in> {0, 1}"
  proof
    fix x assume "x \<in> set ?ps"
    then have "fst x \<in> set y_true" "snd x \<in> set y_pred"
      by (metis prod.collapse set_zip_leftD, metis prod.collapse set_zip_rightD)
    with labels show "fst x \<in> {0, 1} \<and> snd x \<in> {0, 1}"
      by blast
  qed
  have total: "TN y_true y_pred + FP y_true y_pred + FN y_true y_pred + TP y_true y_pred
      = length y_true"
    using count_rows_binary_sum [OF bin] len
    by (simp add: TN_def FP_def FN_def TP_def count_rows_def)
  have diag: "TN y_true y_pred + TP y_true y_pred = length (filter (\<lambda>x. fst x = snd x) ?ps)"
    using count_rows_binary_diag [OF bin] by (simp add: TN_def TP_def count_rows_def)
  have acc: "accuracy_score y_true y_pred
      = Inr (Some (real (TN y_true y_pred + TP y_true y_pred)
                   / real (TN y_true y_pred + FP y_true y_pred
                           + FN y_true y_pred + TP y_true y_pred)))"
    unfolding total diag using nonempty by (simp add: accuracy_score_def ok)
  have both: "confusion_matrix y_true y_pred
      = Inr [[TN y_true y_pred, FP y_true y_pred], [FN y_true y_pred, TP y_true y_pred]]"
    if "set y_true \<union> set y_pred = {0, 1}"
    unfolding confusion_matrix_counts [OF ok] unique_labels_cases(1) [OF that]
    by (simp add: TN_def FP_def FN_def TP_def)
  have one: "confusion_matrix y_true y_pred = Inr [[length y_true]]"
    if "set y_true \<union> set y_pred = {v}" for v
    unfolding confusion_matrix_counts [OF ok] unique_labels_cases(2) [OF that]
    by (simp add: count_rows_all [OF len that])
  from total acc both one show ?thesis
    by blast
qed

theorem confusion_matrix_accuracy_witness:
  "length [1, 1::real] = length [0, 1::real] \<and> [0, 1::real] \<noteq> []
   \<and> set [0, 1::real] \<union> set [1, 1] \<subseteq> {0, 1}
   \<and> set [0, 1::real] \<union> set [1, 1] = {0, 1}
   \<and> TN [0, 1] [1, 1] = 0 \<and> FP [0, 1] [1, 1] = 1 \<and> FN [0, 1] [1, 1] = 0 \<and> TP [0, 1] [1, 1] = 1
   \<and> confusion_matrix [0, 1] [1, 1] = Inr [[0, 1], [0, 1]]
   \<and> accuracy_score [0, 1] [1, 1] = Inr (Some (1 / 2))
   \<and> set [0, 0::real] \<union> set [0, 0] = {0}
   \<and> confusion_matrix [0, 0] [0, 0] = Inr [[length [0, 0::real]]]
   \<and> set [1::real] \<union> set [1] = {1}
   \<and> confusion_matrix [1] [1] = Inr [[length [1::real]]]"
proof -
  have h: "set [0, 1::real] \<union> set [1, 1] = {0, 1}"
    by auto
  have c: "TN [0, 1] [1, 1] = 0" "FP [0, 1] [1, 1] = 1" "FN [0, 1] [1, 1] = 0" "TP [0, 1] [1, 1] = 1"
    by (simp_all add: TN_def FP_def FN_def TP_def count_rows_def)
  have h0: "set [0, 0::real] \<union> set [0, 0] = {0}" and h1: "set [1::real] \<union> set [1] = {1}"
    by simp_all
  from confusion_matrix_accuracy [of "[1, 1]" "[0, 1]"] h c
  have "confusion_matrix [0, 1] [1, 1] = Inr [[0, 1], [0, 1]]
      \<and> accuracy_score [0, 1] [1, 1] = Inr (Some (1 / 2))"
    by simp
  moreover from confusion_matrix_accuracy [of "[0, 0]" "[0, 0]"] h0
  have "confusion_matrix [0, 0] [0, 0] = Inr [[length [0, 0::real]]]"
    by simp
  moreover from confusion_matrix_accuracy [of "[1]" "[1]"] h1
  have "confusion_matrix [1] [1] = Inr [[length [1::real]]]"
    by simp
  ultimately show ?thesis
    using h c h0 h1 by simp
qed

lemma split_8_2:
  "split_indices counting_rng (NumCol labels_8_2) = Inr ([1, 4, 3, 5, 6, 7, 8, 9], [0, 2])"
  unfolding labels_8_2_def by code_simp

text \<open>
  The claim as first stated fails on a table of ten customers with two churners: the
  two rows of the test partition are not churners, and for a model that predicts no
  churn for both, \<^verbatim>\<open>confusion_matrix\<close> returns a matrix of one row and one column,
  not two.
\<close>

theorem confusion_matrix_accuracy_counterexample:
  "split_indices counting_rng (NumCol labels_8_2) = Inr ([1, 4, 3, 5, 6, 7, 8, 9], [0, 2])
   \<and> col_take [0, 2] (NumCol labels_8_2) = Inr (NumCol [Some (Finite 0), Some (Finite 0)])
   \<and> label_values (NumCol [Some (Finite 0), Some (Finite 0)]) = Inr [0, 0]
   \<and> confusion_matrix [0, 0] [0, 0] = Inr [[2]]
   \<and> accuracy_score [0, 0] [0, 0] = Inr (Some 1)"
  by (simp add: split_8_2)
     (simp add: labels_8_2_def confusion_matrix_def accuracy_score_def check_targets_def
        integer_valued_def unique_labels_def add_entry_def)

text \<open>
  What a model cell reports is what the two metrics return on the labels of the test
  partition and on the predictions of its model.
\<close>

lemma model_cell_reports:
  assumes "model_cell clf d = Inr (acc, cm)"
  shows "\<exists>m y_pred y_true.
           clf_fit clf (X_train_processed d) (y_train d) = Inr m
         \<and> clf_predict clf m (X_test_processed d) = Inr y_pred
         \<and> label_values (y_test d) = Inr y_true
         \<and> accuracy_score y_true y_pred = Inr acc
         \<and> confusion_matrix y_true y_pred = Inr cm"
  using assms by (auto simp: model_cell_def split: sum.splits)

text \<open>
  In a run of the notebook the labels of the test partition are 0 or 1: the cleaner
  maps the label column into 0, 1 and NaN, the splitter hands rows of that column on,
  and the metrics refuse a NaN.
\<close>

lemma series_map_churn_range:
  "set (series_map churn_dict c) \<subseteq> {None, Some (Finite 0), Some (Finite 1)}"
  by (cases c) (auto simp: churn_dict_def split: option.splits if_splits)

lemma col_take_NumCol:
  assumes "col_take idx (NumCol ys) = Inr c"
  shows "\<exists>zs. c = NumCol zs \<and> set zs \<subseteq> set ys"
  using assms by (auto split: if_splits)

lemma test_labels_binary:
  assumes c: "fst (clean parse df) = Inr df'"
    and p: "prepare g df' = Inr d"
    and l: "label_values (y_test d) = Inr y_true"
  shows "set y_true \<subseteq> {0, 1}" and "length y_true = col_len (y_test d)"
proof -
  from c obtain churn where "map_of df' ''Churn'' = Some (NumCol (series_map churn_dict churn))"
    by (rule clean_Inr) (simp add: map_of_setitem)
  then have y: "getitem df' ''Churn'' = Inr (NumCol (series_map churn_dict churn))"
    by (simp add: getitem_Inr)
  from p y obtain test where "col_take test (NumCol (series_map churn_dict churn)) = Inr (y_test d)"
    by (auto simp: prepare_def train_test_split_def split: sum.splits prod.splits)
  from col_take_NumCol [OF this] obtain zs where zs: "y_test d = NumCol zs"
    and sub: "set zs \<subseteq> set (series_map churn_dict churn)"
    by blast
  from sub series_map_churn_range have range: "set zs \<subseteq> {None, Some (Finite 0), Some (Finite 1)}"
    by blast
  from l zs have nn: "None \<notin> set (map finite_value zs)"
    and yt: "y_true = map (\<lambda>y. the (finite_value y)) zs"
    by (auto split: if_splits)
  show "set y_true \<subseteq> {0, 1}"
  proof
    fix v assume "v \<in> set y_true"
    then obtain z where z: "z \<in> set zs" and v: "v = the (finite_value z)"
      unfolding yt by auto
    from z range have "z = None \<or> z = Some (Finite 0) \<or> z = Some (Finite 1)"
      by blast
    moreover from z nn have "finite_value z \<noteq> None"
      by force
    ultimately show "v \<in> {0, 1}"
      unfolding v by auto
  qed
  from yt zs show "length y_true = col_len (y_test d)"
    by simp
qed

section \<open>Properties of the feature transformer\<close>



















lemma col_take_Inr:
  assumes "col_take idx c = Inr c'"
  shows "dtype_of c' = dtype_of c" and "col_len c' = length idx"
  using assms by (cases c; auto split: if_splits)+

lemma dtypes_take_rows: "take_rows idx X = Inr X' \<Longrightarrow> dtypes X' = dtypes X"
proof (induction X arbitrary: X')
  case Nil
  then show ?case by simp
next
  case (Cons x X)
  obtain n c where x: "x = (n, c)"
    by (cases x)
  from Cons.prems x obtain c' X0 where c: "col_take idx c = Inr c'"
    and r: "take_rows idx X = Inr X0" and e: "X' = (n, c') # X0"
    by (auto split: sum.splits)
  from Cons.IH [OF r] col_take_Inr(1) [OF c] show ?case
    by (simp add: x e dtypes_def)
qed

lemma columns_dtypes: "map fst (dtypes X) = columns X"
  by (simp add: dtypes_def columns_def case_prod_beta)

lemma columns_take_rows: "take_rows idx X = Inr X' \<Longrightarrow> columns X' = columns X"
  using dtypes_take_rows columns_dtypes by metis

lemma nrows_take_rows:
  assumes "take_rows idx X = Inr X'" and "X \<noteq> []"
  shows "nrows X' = length idx"
proof -
  from assms(2) obtain n c X0 where X: "X = (n, c) # X0"
    by (cases X) auto
  with assms(1) obtain c' X1 where c: "col_take idx c = Inr c'" and e: "X' = (n, c') # X1"
    by (auto split: sum.splits)
  from col_take_Inr(2) [OF c] show ?thesis
    by (simp add: e nrows_def)
qed

lemma take_rows_Nil: "take_rows idx [] = Inr X' \<Longrightarrow> X' = []"
  by simp

text \<open>Looking the columns of a frame up by their own names gives the frame back.\<close>

lemma filter_name:
  assumes "distinct (map fst X)" and "(n, c) \<in> set X"
  shows "filter (\<lambda>(m, c). m = n) X = [(n, c)]"
  using assms
proof (induction X)
  case Nil
  then show ?case by simp
next
  case (Cons x X)
  obtain m c' where x: "x = (m, c')"
    by (cases x)
  show ?case
  proof (cases "(n, c) = x")
    case True
    with Cons.prems(1) x have "\<forall>y \<in> set X. fst y \<noteq> n"
      by auto
    then have "filter (\<lambda>(m, c). m = n) X = []"
      by (auto simp: filter_empty_conv)
    with True show ?thesis
      by auto
  next
    case False
    with Cons.prems have in_rest: "(n, c) \<in> set X" and d: "distinct (map fst X)"
      by simp_all
    from in_rest have "n \<in> fst ` set X"
      by force
    with Cons.prems(1) x have "m \<noteq> n"
      by auto
    with Cons.IH [OF d in_rest] x show ?thesis
      by simp
  qed
qed

lemma reindex_sublist:
  assumes "distinct (map fst X)" and "set Y \<subseteq> set X"
  shows "reindex (map fst Y) X = Inr Y"
  using assms(2)
proof (induction Y)
  case Nil
  show ?case by simp
next
  case (Cons y Y)
  obtain n c where y: "y = (n, c)"
    by (cases y)
  with Cons.prems have "(n, c) \<in> set X" and "set Y \<subseteq> set X"
    by simp_all
  with filter_name [OF assms(1)] Cons.IH y show ?case
    by simp
qed

lemma reindex_self: "distinct (columns X) \<Longrightarrow> reindex (columns X) X = Inr X"
  unfolding columns_def by (rule reindex_sublist) simp_all

lemma check_array_Inr:
  "check_array cols = Inr num \<longleftrightarrow>
     (\<forall>col \<in> set cols. \<forall>x \<in> set col. \<not> is_inf x) \<and> num = map (map finite_value) cols"
  by (auto simp: check_array_def)

lemma check_array_Inl:
  "check_array cols = Inl e \<longleftrightarrow> (\<exists>col \<in> set cols. \<exists>x \<in> set col. is_inf x) \<and> e = ValueError"
  by (auto simp: check_array_def)

lemma encode_columns_Ignore:
  "encode_columns Ignore cats cols
     = Inr (concat (map (\<lambda>(c, col). onehot_columns c col) (zip cats cols)))"
  by (induction Ignore cats cols rule: encode_columns.induct)
     (simp_all add: encoder_transform_def)

text \<open>Applying a fitted state to a frame with the columns and dtypes seen at fit time.\<close>

lemma apply_fitted_Ignore:
  assumes "distinct (columns X)" and "dtypes X = feature_names_in f"
    and "X = [] \<or> nrows X \<noteq> 0"
  shows "apply_fitted Ignore f X =
     (case check_array (numerical X) of Inl e \<Rightarrow> Inl e
      | Inr num \<Rightarrow>
          Inr (map (\<lambda>(s, col). scaler_transform s col) (zip (scalers f) num)
               @ concat (map (\<lambda>(c, col). onehot_columns c col) (zip (categories f) (categorical X)))))"
proof -
  have "map fst (feature_names_in f) = columns X"
    unfolding assms(2) [symmetric] by (rule columns_dtypes)
  with reindex_self [OF assms(1)] have "reindex (map fst (feature_names_in f)) X = Inr X"
    by simp
  with assms(2,3) show ?thesis
    by (auto simp: apply_fitted_def encode_columns_Ignore split: sum.splits)
qed

lemma fit_Inr:
  "fit X = Inr f \<longleftrightarrow>
     distinct (columns X) \<and> (X = [] \<or> nrows X \<noteq> 0)
     \<and> (\<forall>col \<in> set (numerical X). \<forall>x \<in> set col. \<not> is_inf x)
     \<and> f = \<lparr>feature_names_in = dtypes X,
             scalers = map scaler_fit (map (map finite_value) (numerical X)),
             categories = map encoder_fit (categorical X)\<rparr>"
  by (auto simp: fit_def check_array_def)

lemma fit_transform_new:
  assumes "distinct (columns X)" and "X = [] \<or> nrows X \<noteq> 0"
    and "\<forall>col \<in> set (numerical X). \<forall>x \<in> set col. \<not> is_inf x"
  shows "fit_transform new_preprocessor X =
     Inr (\<lparr>unknown = Ignore,
           state = Some \<lparr>feature_names_in = dtypes X,
                         scalers = map scaler_fit (map (map finite_value) (numerical X)),
                         categories = map encoder_fit (categorical X)\<rparr>\<rparr>,
          map (\<lambda>(s, col). scaler_transform s col)
            (zip (map scaler_fit (map (map finite_value) (numerical X)))
                 (map (map finite_value) (numerical X)))
          @ concat (map (\<lambda>(c, col). onehot_columns c col)
                      (zip (map encoder_fit (categorical X)) (categorical X))))"
proof -
  let ?f = "\<lparr>feature_names_in = dtypes X,
             scalers = map scaler_fit (map (map finite_value) (numerical X)),
             categories = map encoder_fit (categorical X)\<rparr>"
  from assms have f: "fit X = Inr ?f"
    by (simp add: fit_Inr)
  have c: "check_array (numerical X) = Inr (map (map finite_value) (numerical X))"
    using assms(3) by (simp add: check_array_Inr)
  have "apply_fitted Ignore ?f X =
     Inr (map (\<lambda>(s, col). scaler_transform s col)
            (zip (map scaler_fit (map (map finite_value) (numerical X)))
                 (map (map finite_value) (numerical X)))
          @ concat (map (\<lambda>(c, col). onehot_columns c col)
                      (zip (map encoder_fit (categorical X)) (categorical X))))"
    using apply_fitted_Ignore [of X ?f] assms(1,2) by (simp add: c)
  with f show ?thesis
    by (simp add: fit_transform_def new_preprocessor_def)
qed



lemma variance_1_3: "variance [1, 3] = 1" "mean [1, 3] = 2"
  by (simp_all add: variance_def mean_def)

lemmas constant_eval = is_constant_feature_def eps_def power2_eq_square

lemmas transformer_eval = fit_transform_def transform_def fit_def new_preprocessor_def
  apply_fitted_def columns_def nrows_def dtypes_def check_array_def is_inf_def
  scaler_fit_def scaler_transform_def dropna_def std_def encoder_fit_def
  encoder_transform_def onehot_columns_def constant_eval





text \<open>
  It fails as well on a column that is not constant but that the scaler takes for a
  constant one: the two tenures \<open>2\<^sup>6\<^sup>0\<close> and \<open>2\<^sup>6\<^sup>0 + 1024\<close> have the standard deviation 512
  before and after the transformation.
\<close>

lemma near_constant_column:
  "fit_transform new_preprocessor
     [(''tenure'', NumCol [Some (Finite (2 ^ 60)), Some (Finite (2 ^ 60 + 1024))])] =
     Inr (\<lparr>unknown = Ignore,
           state = Some \<lparr>feature_names_in = [(''tenure'', Number)],
                         scalers = [\<lparr>fitted_mean = Some (2 ^ 60 + 512), fitted_scale = Some 1\<rparr>],
                         categories = []\<rparr>\<rparr>,
          [[Some (- 512), Some 512]])
   \<and> std (dropna [Some (- 512), Some 512]) = 512"
proof -
  have m: "mean [2 ^ 60, 2 ^ 60 + 1024] = 2 ^ 60 + 512"
    by (simp add: mean_def)
  have v: "variance [2 ^ 60, 2 ^ 60 + 1024] = 512\<^sup>2"
    by (simp add: variance_def m) (simp add: mean_def)
  have s: "std [- 512, 512] = 512"
    by (simp add: std_def variance_def mean_def real_sqrt_unique)
  from m v s show ?thesis
    by (simp add: fit_transform_def transform_def fit_def new_preprocessor_def
        apply_fitted_def columns_def nrows_def dtypes_def check_array_def is_inf_def
        scaler_fit_def scaler_transform_def dropna_def constant_eval)
qed

lemma set_encoder_fit: "set (encoder_fit col) = set col"
proof -
  have "Some ` set (dropna col) = set col - {None}"
    by (induction col) (auto simp: dropna_def)
  then show ?thesis
    by (auto simp: encoder_fit_def)
qed

lemma distinct_encoder_fit: "distinct (encoder_fit col)"
  by (auto simp: encoder_fit_def distinct_map)

lemma onehot_row:
  assumes "i < length te"
  shows "map (\<lambda>c. c ! i) (onehot_columns cats te)
       = map (\<lambda>c. Some (if te ! i = c then 1 else 0)) (tl cats)"
  using assms by (simp add: onehot_columns_def)

lemma onehot_row_zero:
  assumes i: "i < length te"
    and v: "te ! i \<notin> set tr \<or> te ! i = hd (encoder_fit tr)"
  shows "map (\<lambda>c. c ! i) (onehot_columns (encoder_fit tr) te)
       = replicate (length (encoder_fit tr) - 1) (Some 0)"
proof -
  let ?cats = "encoder_fit tr"
  have "te ! i \<notin> set (tl ?cats)"
  proof (cases "te ! i \<notin> set tr")
    case True
    then have "te ! i \<notin> set ?cats"
      by (simp add: set_encoder_fit)
    then show ?thesis
      by (cases ?cats) auto
  next
    case False
    with v have "te ! i = hd ?cats"
      by simp
    with distinct_encoder_fit [of tr] show ?thesis
      by (cases ?cats) auto
  qed
  then have "map (\<lambda>c. Some (if te ! i = c then 1 else 0)) (tl ?cats)
      = map (\<lambda>c. Some (0::real)) (tl ?cats)"
    by (intro map_cong) auto
  then show ?thesis
    by (simp add: onehot_row [OF i] map_replicate_const)
qed

lemma zip_map_fst:
  "map f (zip (map g xs) ys) = map (\<lambda>(x, y). f (g x, y)) (zip xs ys)"
  by (induction xs arbitrary: ys) (auto simp: zip_Cons1 split: list.splits)

text \<open>
  C4 (as amended). For every table with distinct column names and every non-empty
  training and test selection of its rows (disjoint or not) whose numeric entries are
  finite or missing, fitting the transformer on the training rows and applying it to
  the test rows returns (it does not raise), also when a text column of the test rows
  holds values that the training rows do not. The processed test matrix is the scaled
  numeric columns followed by the indicator columns over the training categories; in
  the indicator block of a text column, the row of a value that was not seen in
  training, or that is the dropped first category, is all zeros.
\<close>

theorem transform_unseen:
  assumes Xtr: "take_rows train X = Inr Xtr" and Xte: "take_rows test X = Inr Xte"
    and names: "distinct (columns X)"
    and tr: "train \<noteq> []" and te: "test \<noteq> []"
    and fin: "\<forall>col \<in> set (numerical Xtr @ numerical Xte). \<forall>x \<in> set col. \<not> is_inf x"
  shows "\<exists>p Mtr ntr nte.
       fit_transform new_preprocessor Xtr = Inr (p, Mtr)
     \<and> check_array (numerical Xtr) = Inr ntr
     \<and> check_array (numerical Xte) = Inr nte
     \<and> transform p Xte =
         Inr (p, map (\<lambda>(s, col). scaler_transform s col) (zip (map scaler_fit ntr) nte)
                 @ concat (map (\<lambda>(seen, col). onehot_columns (encoder_fit seen) col)
                             (zip (categorical Xtr) (categorical Xte))))
     \<and> (\<forall>seen col i. i < length col \<and> (col ! i \<notin> set seen \<or> col ! i = hd (encoder_fit seen))
           \<longrightarrow> map (\<lambda>c. c ! i) (onehot_columns (encoder_fit seen) col)
                 = replicate (length (encoder_fit seen) - 1) (Some 0))"
proof -
  let ?ntr = "map (map finite_value) (numerical Xtr)"
  let ?nte = "map (map finite_value) (numerical Xte)"
  let ?f = "\<lparr>feature_names_in = dtypes Xtr,
              scalers = map scaler_fit ?ntr,
              categories = map encoder_fit (categorical Xtr)\<rparr>"
  let ?p = "\<lparr>unknown = Ignore, state = Some ?f\<rparr>"
  have rows_tr: "Xtr = [] \<or> nrows Xtr \<noteq> 0"
  proof (cases "X = []")
    case True
    with Xtr show ?thesis by simp
  next
    case False
    from nrows_take_rows [OF Xtr False] tr show ?thesis by simp
  qed
  have rows_te: "Xte = [] \<or> nrows Xte \<noteq> 0"
  proof (cases "X = []")
    case True
    with Xte show ?thesis by simp
  next
    case False
    from nrows_take_rows [OF Xte False] te show ?thesis by simp
  qed
  from names have dtr: "distinct (columns Xtr)" and dte: "distinct (columns Xte)"
    by (simp_all add: columns_take_rows [OF Xtr] columns_take_rows [OF Xte])
  from fin have ftr: "\<forall>col \<in> set (numerical Xtr). \<forall>x \<in> set col. \<not> is_inf x"
    and fte: "\<forall>col \<in> set (numerical Xte). \<forall>x \<in> set col. \<not> is_inf x"
    by auto
  have ctr: "check_array (numerical Xtr) = Inr ?ntr" and cte: "check_array (numerical Xte) = Inr ?nte"
    using ftr fte by (simp_all add: check_array_Inr)
  have same: "dtypes Xte = feature_names_in ?f"
    using dtypes_take_rows [OF Xtr] dtypes_take_rows [OF Xte] by simp
  have "\<exists>Mtr. fit_transform new_preprocessor Xtr = Inr (?p, Mtr)"
    using fit_transform_new [OF dtr rows_tr ftr] by simp
  moreover have "transform ?p Xte =
         Inr (?p, map (\<lambda>(s, col). scaler_transform s col) (zip (map scaler_fit ?ntr) ?nte)
                 @ concat (map (\<lambda>(seen, col). onehot_columns (encoder_fit seen) col)
                             (zip (categorical Xtr) (categorical Xte))))"
    using apply_fitted_Ignore [OF dte same rows_te] by (simp add: transform_def cte zip_map_fst)
  ultimately show ?thesis
    using ctr cte onehot_row_zero by blast
qed

lemma fit_unseen:
  "fit_transform new_preprocessor
       [(''tenure'', NumCol [Some (Finite 1), Some (Finite 3)]),
        (''Contract'', ObjCol [Some ''a'', Some ''b''])]
     = Inr (unseen_fitted, [[Some (- 1), Some 1], [Some 0, Some 1]])"
  by (simp add: unseen_fitted_def transformer_eval variance_1_3)

theorem transform_unseen_witness:
  "take_rows [0, 1] unseen_table
       = Inr [(''tenure'', NumCol [Some (Finite 1), Some (Finite 3)]),
              (''Contract'', ObjCol [Some ''a'', Some ''b''])]
   \<and> take_rows [2] unseen_table
       = Inr [(''tenure'', NumCol [Some (Finite 7)]), (''Contract'', ObjCol [Some ''c''])]
   \<and> distinct (columns unseen_table) \<and> [0, 1::nat] \<noteq> [] \<and> [2::nat] \<noteq> []
   \<and> \<not> is_inf (Some (Finite 1)) \<and> \<not> is_inf (Some (Finite 3)) \<and> \<not> is_inf (Some (Finite 7))
   \<and> fit_transform new_preprocessor
       [(''tenure'', NumCol [Some (Finite 1), Some (Finite 3)]),
        (''Contract'', ObjCol [Some ''a'', Some ''b''])]
       = Inr (unseen_fitted, [[Some (- 1), Some 1], [Some 0, Some 1]])
   \<and> transform unseen_fitted
       [(''tenure'', NumCol [Some (Finite 7)]), (''Contract'', ObjCol [Some ''c''])]
       = Inr (unseen_fitted, [[Some 5], [Some 0]])
   \<and> (0::nat) < length [Some ''c''] \<and> [Some ''c''] ! 0 \<notin> set [Some ''a'', Some ''b'']
   \<and> map (\<lambda>c. c ! 0) (onehot_columns (encoder_fit [Some ''a'', Some ''b'']) [Some ''c''])
       = replicate (length (encoder_fit [Some ''a'', Some ''b'']) - 1) (Some 0)"
proof -
  let ?Xtr = "[(''tenure'', NumCol [Some (Finite 1), Some (Finite 3)]),
              (''Contract'', ObjCol [Some ''a'', Some ''b''])]"
  let ?Xte = "[(''tenure'', NumCol [Some (Finite 7)]), (''Contract'', ObjCol [Some ''c''])]"
  have Xtr: "take_rows [0, 1] unseen_table = Inr ?Xtr"
    and Xte: "take_rows [2] unseen_table = Inr ?Xte"
    by (simp_all add: unseen_table_def)
  have names: "distinct (columns unseen_table)"
    by (simp add: unseen_table_def columns_def)
  have tr: "[0, 1::nat] \<noteq> []" and te: "[2::nat] \<noteq> []"
    by simp_all
  have fin: "\<forall>col \<in> set (numerical ?Xtr @ numerical ?Xte). \<forall>x \<in> set col. \<not> is_inf x"
    by (simp add: is_inf_def)
  have fin': "\<not> is_inf (Some (Finite 1))" "\<not> is_inf (Some (Finite 3))" "\<not> is_inf (Some (Finite 7))"
    by (simp_all add: is_inf_def)
  have cats: "encoder_fit [Some ''a'', Some ''b''] = [Some ''a'', Some ''b'']"
    by (simp add: encoder_fit_def dropna_def)
  have i: "(0::nat) < length [Some ''c'']" and u: "[Some ''c''] ! 0 \<notin> set [Some ''a'', Some ''b'']"
    by simp_all
  from transform_unseen [OF Xtr Xte names tr te fin] obtain p Mtr ntr nte where
    ft: "fit_transform new_preprocessor ?Xtr = Inr (p, Mtr)" and
    ctr: "check_array (numerical ?Xtr) = Inr ntr" and cte: "check_array (numerical ?Xte) = Inr nte" and
    t: "transform p ?Xte =
         Inr (p, map (\<lambda>(s, col). scaler_transform s col) (zip (map scaler_fit ntr) nte)
                 @ concat (map (\<lambda>(seen, col). onehot_columns (encoder_fit seen) col)
                             (zip (categorical ?Xtr) (categorical ?Xte))))" and
    z: "\<forall>seen col i. i < length col \<and> (col ! i \<notin> set seen \<or> col ! i = hd (encoder_fit seen))
           \<longrightarrow> map (\<lambda>c. c ! i) (onehot_columns (encoder_fit seen) col)
                 = replicate (length (encoder_fit seen) - 1) (Some 0)"
    by blast
  from ft fit_unseen have p: "p = unseen_fitted"
    by simp
  from ctr have ntr: "ntr = [[Some 1, Some 3]]"
    by (simp add: check_array_Inr)
  from cte have nte: "nte = [[Some 7]]"
    by (simp add: check_array_Inr)
  from t have t': "transform unseen_fitted ?Xte = Inr (unseen_fitted, [[Some 5], [Some 0]])"
    unfolding p ntr nte
    by (simp add: scaler_fit_def scaler_transform_def dropna_def variance_1_3 constant_eval
        cats onehot_columns_def)
  from z i u
  have "map (\<lambda>c. c ! 0) (onehot_columns (encoder_fit [Some ''a'', Some ''b'']) [Some ''c''])
       = replicate (length (encoder_fit [Some ''a'', Some ''b'']) - 1) (Some 0)"
    by blast
  with Xtr Xte names tr te fin' fit_unseen t' i u show ?thesis
    by blast
qed

text \<open>
  The claim as first stated fails when the test rows hold an infinite number: the
  third customer of this table has an infinite tenure and an unseen contract, and the
  transformer that was fit on the first two customers raises ValueError on it.
\<close>

theorem transform_unseen_counterexample:
  "take_rows [0, 1] unseen_infinite_table
       = Inr [(''tenure'', NumCol [Some (Finite 1), Some (Finite 3)]),
              (''Contract'', ObjCol [Some ''a'', Some ''b''])]
   \<and> take_rows [2] unseen_infinite_table
       = Inr [(''tenure'', NumCol [Some PosInf]), (''Contract'', ObjCol [Some ''c''])]
   \<and> fit_transform new_preprocessor
       [(''tenure'', NumCol [Some (Finite 1), Some (Finite 3)]),
        (''Contract'', ObjCol [Some ''a'', Some ''b''])]
       = Inr (unseen_fitted, [[Some (- 1), Some 1], [Some 0, Some 1]])
   \<and> transform unseen_fitted
       [(''tenure'', NumCol [Some PosInf]), (''Contract'', ObjCol [Some ''c''])]
       = Inl ValueError"
  by (simp add: unseen_infinite_table_def fit_unseen)
     (simp add: unseen_fitted_def transform_def apply_fitted_def dtypes_def nrows_def
        check_array_def is_inf_def)

text \<open>
  In general an infinite numeric entry is refused, at fit time in the training rows
  and at transform time in the test rows.
\<close>

lemma fit_infinite_raises:
  assumes "\<exists>col \<in> set (numerical X). \<exists>x \<in> set col. is_inf x"
  shows "fit_transform p X = Inl ValueError"
proof -
  from assms have "fit X = Inl ValueError"
    by (auto simp: fit_def check_array_def)
  then show ?thesis
    by (simp add: fit_transform_def)
qed

lemma transform_infinite_raises:
  assumes ft: "fit_transform new_preprocessor Xtr = Inr (p, Mtr)"
    and same: "dtypes Xte = dtypes Xtr" and names: "distinct (columns Xte)"
    and inf: "\<exists>col \<in> set (numerical Xte). \<exists>x \<in> set col. is_inf x"
  shows "transform p Xte = Inl ValueError"
proof -
  from ft obtain f where f: "fit Xtr = Inr f" and p: "p = \<lparr>unknown = Ignore, state = Some f\<rparr>"
    by (auto simp: fit_transform_def new_preprocessor_def split: sum.splits)
  from f have fn: "feature_names_in f = dtypes Xtr"
    by (auto simp: fit_Inr)
  have "map fst (feature_names_in f) = columns Xte"
    unfolding fn same [symmetric] by (rule columns_dtypes)
  with reindex_self [OF names] have r: "reindex (map fst (feature_names_in f)) Xte = Inr Xte"
    by simp
  from inf have "check_array (numerical Xte) = Inl ValueError"
    by (simp add: check_array_def)
  with r have "apply_fitted Ignore f Xte = Inl ValueError"
    by (simp add: apply_fitted_def)
  then show ?thesis
    by (simp add: transform_def p)
qed

text \<open>
  With \<^verbatim>\<open>handle_unknown='error'\<close> the unseen contract raises; the notebook's
  \<^verbatim>\<open>handle_unknown='ignore'\<close> is what lets the transform go through.
\<close>

lemma transform_error_raises:
  "transform (unseen_fitted\<lparr>unknown := Error\<rparr>)
     [(''tenure'', NumCol [Some (Finite 7)]), (''Contract'', ObjCol [Some ''c''])] = Inl ValueError"
  by (simp add: unseen_fitted_def transform_def apply_fitted_def nrows_def dtypes_def
      check_array_def is_inf_def encoder_transform_def)

text \<open>
  The transform looks the columns up by name: another column order and further
  columns change nothing.
\<close>

lemma transform_by_name:
  "transform unseen_fitted
     [(''Contract'', ObjCol [Some ''c'']), (''extra'', ObjCol [Some ''x'']),
      (''tenure'', NumCol [Some (Finite 7)])]
     = Inr (unseen_fitted, [[Some 5], [Some 0]])"
  by (simp add: unseen_fitted_def transform_def apply_fitted_def nrows_def dtypes_def
      check_array_def is_inf_def encoder_transform_def scaler_transform_def onehot_columns_def)

lemma drop_a: "drop_column cleaned_a ''Churn'' = Inr features_a"
  and get_a: "getitem cleaned_a ''Churn'' = Inr (NumCol churn_5_5)"
  by (simp_all add: cleaned_a_def features_a_def drop_column_def getitem_def columns_def)

lemma drop_b: "drop_column cleaned_b ''Churn'' = Inr features_b"
  and get_b: "getitem cleaned_b ''Churn'' = Inr (NumCol churn_5_5)"
  by (simp_all add: cleaned_b_def features_b_def drop_column_def getitem_def columns_def)

lemma split_a: "train_test_split counting_rng features_a (NumCol churn_5_5)
   = Inr (X_train prepared_a, X_test prepared_a, y_train prepared_a, y_test prepared_a)"
  unfolding prepared_a_def features_a_def churn_5_5_def by code_simp

lemma split_b: "train_test_split counting_rng features_b (NumCol churn_5_5)
   = Inr (X_train prepared_b, X_test prepared_b, y_train prepared_b, y_test prepared_b)"
  unfolding prepared_b_def prepared_a_def features_b_def churn_5_5_def by code_simp

lemma variance_train:
  "variance [3, 3, 3, 3, 1, 1, 1, 1] = 1" "mean [3, 3, 3, 3, 1, 1, 1, 1] = 2"
  by (simp_all add: variance_def mean_def)

lemma fit_train_a:
  "fit_transform new_preprocessor (X_train prepared_a)
     = Inr (fitted_preprocessor prepared_a, X_train_processed prepared_a)"
  by (simp add: prepared_a_def transformer_eval variance_train)

lemma transform_test_a:
  "transform (fitted_preprocessor prepared_a) (X_test prepared_a)
     = Inr (fitted_preprocessor prepared_a, X_test_processed prepared_a)"
  by (simp add: prepared_a_def transformer_eval)

lemma transform_test_b:
  "transform (fitted_preprocessor prepared_a) (X_test prepared_b)
     = Inr (fitted_preprocessor prepared_a, X_test_processed prepared_b)"
  by (simp add: prepared_b_def prepared_a_def transformer_eval)

lemma prepare_a: "prepare counting_rng cleaned_a = Inr prepared_a"
  by (simp add: prepare_def drop_a get_a split_a fit_train_a transform_test_a)

lemma prepare_b: "prepare counting_rng cleaned_b = Inr prepared_b"
proof -
  have same: "X_train prepared_b = X_train prepared_a"
    "fitted_preprocessor prepared_b = fitted_preprocessor prepared_a"
    "X_train_processed prepared_b = X_train_processed prepared_a"
    "y_train prepared_b = y_train prepared_a" "y_test prepared_b = y_test prepared_a"
    by (simp_all add: prepared_b_def)
  have "prepare counting_rng cleaned_b =
      Inr \<lparr>X_train = X_train prepared_b, X_test = X_test prepared_b,
           y_train = y_train prepared_b, y_test = y_test prepared_b,
           fitted_preprocessor = fitted_preprocessor prepared_a,
           X_train_processed = X_train_processed prepared_a,
           X_test_processed = X_test_processed prepared_b\<rparr>"
    by (simp add: prepare_def drop_b get_b split_b)
       (simp add: same fit_train_a transform_test_b)
  also have "\<dots> = Inr prepared_b"
    by (simp add: prepared_b_def prepared_a_def)
  finally show ?thesis .
qed

lemma prepare_Inr:
  assumes "prepare g df = Inr r"
  obtains p1 where
    "fit_transform new_preprocessor (X_train r) = Inr (p1, X_train_processed r)"
    "transform p1 (X_test r) = Inr (fitted_preprocessor r, X_test_processed r)"
  using assms by (auto simp: prepare_def split: sum.splits prod.splits)

lemma transform_same_object:
  "transform p X = Inr (p', M) \<Longrightarrow> p' = p"
  by (auto simp: transform_def split: option.splits sum.splits)

text \<open>
  C3. In the preparation cell the transformer is fit once, by
  \<^verbatim>\<open>fit_transform\<close> on the training partition: the state the object holds after both
  calls is the result of fitting on \<open>X_train\<close>, the processed training and test
  matrices are that state applied to \<open>X_train\<close> and to \<open>X_test\<close>, and the call of
  \<^verbatim>\<open>transform\<close> on the test partition leaves the object as it was. Hence two runs
  with the same training partition end with the same fitted object and the same
  processed training matrix, whatever their test partitions are.
\<close>

theorem fitted_on_train_only:
  assumes r: "prepare g df = Inr r" and r': "prepare g' df' = Inr r'"
    and same: "X_train r' = X_train r"
  shows "(\<exists>f. fit (X_train r) = Inr f
            \<and> fitted_preprocessor r = \<lparr>unknown = Ignore, state = Some f\<rparr>
            \<and> apply_fitted Ignore f (X_train r) = Inr (X_train_processed r)
            \<and> apply_fitted Ignore f (X_test r) = Inr (X_test_processed r))
       \<and> fitted_preprocessor r' = fitted_preprocessor r
       \<and> X_train_processed r' = X_train_processed r"
proof -
  have run: "\<exists>f. fit (X_train s) = Inr f
            \<and> fitted_preprocessor s = \<lparr>unknown = Ignore, state = Some f\<rparr>
            \<and> apply_fitted Ignore f (X_train s) = Inr (X_train_processed s)
            \<and> apply_fitted Ignore f (X_test s) = Inr (X_test_processed s)"
    if "prepare h d = Inr s" for h :: "'x rng" and d s
  proof -
    from that obtain p1 where
      ft: "fit_transform new_preprocessor (X_train s) = Inr (p1, X_train_processed s)" and
      t: "transform p1 (X_test s) = Inr (fitted_preprocessor s, X_test_processed s)"
      by (rule prepare_Inr)
    from ft obtain f where f: "fit (X_train s) = Inr f"
      and a: "apply_fitted Ignore f (X_train s) = Inr (X_train_processed s)"
      and p1: "p1 = \<lparr>unknown = Ignore, state = Some f\<rparr>"
      by (auto simp: fit_transform_def new_preprocessor_def split: sum.splits)
    from t have "fitted_preprocessor s = p1"
      by (rule transform_same_object)
    moreover from t p1 have "apply_fitted Ignore f (X_test s) = Inr (X_test_processed s)"
      by (auto simp: transform_def split: sum.splits)
    ultimately show ?thesis
      using f a p1 by blast
  qed
  from run [OF r] obtain f where f: "fit (X_train r) = Inr f"
    "fitted_preprocessor r = \<lparr>unknown = Ignore, state = Some f\<rparr>"
    "apply_fitted Ignore f (X_train r) = Inr (X_train_processed r)"
    "apply_fitted Ignore f (X_test r) = Inr (X_test_processed r)"
    by blast
  from run [OF r'] obtain f' where f': "fit (X_train r') = Inr f'"
    "fitted_preprocessor r' = \<lparr>unknown = Ignore, state = Some f'\<rparr>"
    "apply_fitted Ignore f' (X_train r') = Inr (X_train_processed r')"
    by blast
  from f(1) f'(1) same have "f' = f"
    by simp
  with f f' same show ?thesis
    by auto
qed


theorem fitted_on_train_only_witness:
  "prepare counting_rng cleaned_a = Inr prepared_a
   \<and> prepare counting_rng cleaned_b = Inr prepared_b
   \<and> X_train prepared_b = X_train prepared_a
   \<and> X_test prepared_b \<noteq> X_test prepared_a
   \<and> fitted_preprocessor prepared_b = fitted_preprocessor prepared_a
   \<and> X_train_processed prepared_b = X_train_processed prepared_a"
proof -
  have same: "X_train prepared_b = X_train prepared_a"
    by (simp add: prepared_b_def)
  have "X_test prepared_b \<noteq> X_test prepared_a"
    by (simp add: prepared_b_def prepared_a_def)
  with fitted_on_train_only [OF prepare_a prepare_b same] prepare_a prepare_b same
  show ?thesis
    by blast
qed

section \<open>Properties of the splitter\<close>

lemma sum_list_indicator:
  "sum_list (map (\<lambda>x. if P x then (1::int) else 0) xs) = int (length (filter P xs))"
  by (induction xs) simp_all

lemma sum_list_increment:
  fixes f :: "int list"
  assumes d: "distinct chosen" and sub: "set chosen \<subseteq> {..<length f}"
  shows "sum_list (map (\<lambda>i. if i \<in> set chosen then f ! i + 1 else f ! i) [0..<length f])
       = sum_list f + int (length chosen)"
proof -
  have "(\<lambda>i. if i \<in> set chosen then f ! i + 1 else f ! i)
      = (\<lambda>i. f ! i + (if i \<in> set chosen then 1 else 0))"
    by auto
  then have "sum_list (map (\<lambda>i. if i \<in> set chosen then f ! i + 1 else f ! i) [0..<length f])
      = sum_list (map (\<lambda>i. f ! i) [0..<length f])
        + sum_list (map (\<lambda>i. if i \<in> set chosen then (1::int) else 0) [0..<length f])"
    by (simp add: sum_list_addf)
  also have "map (\<lambda>i. f ! i) [0..<length f] = f"
    by (rule map_nth)
  also have "sum_list (map (\<lambda>i. if i \<in> set chosen then (1::int) else 0) [0..<length f])
      = int (length (filter (\<lambda>i. i \<in> set chosen) [0..<length f]))"
    by (rule sum_list_indicator)
  also have "length (filter (\<lambda>i. i \<in> set chosen) [0..<length f])
      = card ({i. i \<in> set chosen} \<inter> set [0..<length f])"
    by (rule distinct_length_filter) simp
  also from sub have "{i. i \<in> set chosen} \<inter> set [0..<length f] = set chosen"
    by auto
  also from d have "card (set chosen) = length chosen"
    by (rule distinct_card)
  finally show ?thesis .
qed

lemma add_remainders_spec:
  assumes g: "valid_rng g"
    and dv: "distinct vs"
    and len: "length floored = length remainder"
    and need: "need \<le> card {i. i < length remainder \<and> remainder ! i \<in> set vs}"
  shows "case add_remainders g remainder vs floored need r of
           (m, r') \<Rightarrow>
             length m = length floored
           \<and> sum_list m = sum_list floored + int need
           \<and> (\<forall>i < length floored.
                 floored ! i \<le> m ! i \<and> m ! i \<le> floored ! i + 1
               \<and> (m ! i \<noteq> floored ! i \<longrightarrow> remainder ! i \<in> set vs))"
  using dv len need
proof (induction vs arbitrary: floored need r)
  case Nil
  then show ?case by simp
next
  case (Cons v vs)
  let ?k = "length remainder"
  let ?inds = "filter (\<lambda>i. remainder ! i = v) [0..<?k]"
  let ?add = "min (length ?inds) need"
  obtain chosen r' where ch: "choice g r ?inds ?add = (chosen, r')"
    by (cases "choice g r ?inds ?add")
  let ?f' = "map (\<lambda>i. if i \<in> set chosen then floored ! i + 1 else floored ! i) [0..<length floored]"
  have dinds: "distinct ?inds"
    by simp
  from g dinds have "length (fst (choice g r ?inds ?add)) = ?add
      \<and> distinct (fst (choice g r ?inds ?add))
      \<and> set (fst (choice g r ?inds ?add)) \<subseteq> set ?inds"
    unfolding valid_rng_def by (metis min.cobounded1)
  with ch have lch: "length chosen = ?add" and dch: "distinct chosen"
    and sch: "set chosen \<subseteq> set ?inds"
    by simp_all
  from sch Cons.prems(2) have sub: "set chosen \<subseteq> {..<length floored}"
    by auto
  have sum': "sum_list ?f' = sum_list floored + int ?add"
    using sum_list_increment [OF dch sub] lch by simp
  have len': "length ?f' = length remainder"
    using Cons.prems(2) by simp
  have step: "\<forall>i < length floored. floored ! i \<le> ?f' ! i \<and> ?f' ! i \<le> floored ! i + 1
      \<and> (?f' ! i \<noteq> floored ! i \<longrightarrow> remainder ! i = v)"
    using sch by auto
  have chosen_v: "\<forall>i \<in> set chosen. remainder ! i = v"
    using sch by auto
  have unfold: "add_remainders g remainder (v # vs) floored need r
      = (if need - ?add = 0 then (?f', r')
         else add_remainders g remainder vs ?f' (need - ?add) r')"
    using ch by (simp add: Let_def)
  show ?case
  proof (cases "need - ?add = 0")
    case True
    then have "need = ?add"
      by simp
    with True unfold sum' step show ?thesis
      by auto
  next
    case False
    then have add: "?add = length ?inds" and gt: "length ?inds < need"
      by simp_all
    from Cons.prems(1) have v: "v \<notin> set vs" and dvs: "distinct vs"
      by simp_all
    have "{i. i < ?k \<and> remainder ! i \<in> set (v # vs)}
        = set ?inds \<union> {i. i < ?k \<and> remainder ! i \<in> set vs}"
      by auto
    moreover from v have "set ?inds \<inter> {i. i < ?k \<and> remainder ! i \<in> set vs} = {}"
      by auto
    ultimately have "card {i. i < ?k \<and> remainder ! i \<in> set (v # vs)}
        = card (set ?inds) + card {i. i < ?k \<and> remainder ! i \<in> set vs}"
      by (simp add: card_Un_disjoint)
    moreover have "card (set ?inds) = length ?inds"
      using dinds by (rule distinct_card)
    ultimately have need': "need - ?add \<le> card {i. i < ?k \<and> remainder ! i \<in> set vs}"
      using Cons.prems(3) add by simp
    obtain m r'' where rec: "add_remainders g remainder vs ?f' (need - ?add) r' = (m, r'')"
      by (cases "add_remainders g remainder vs ?f' (need - ?add) r'")
    from Cons.IH [OF dvs len' need', of r'] rec
    have ih: "length m = length ?f'" "sum_list m = sum_list ?f' + int (need - ?add)"
      "\<forall>i < length ?f'. ?f' ! i \<le> m ! i \<and> m ! i \<le> ?f' ! i + 1
          \<and> (m ! i \<noteq> ?f' ! i \<longrightarrow> remainder ! i \<in> set vs)"
      by simp_all
    have "\<forall>i < length floored. floored ! i \<le> m ! i \<and> m ! i \<le> floored ! i + 1
         \<and> (m ! i \<noteq> floored ! i \<longrightarrow> remainder ! i \<in> set (v # vs))"
    proof (intro allI impI)
      fix i assume i: "i < length floored"
      with ih(3) have b: "?f' ! i \<le> m ! i" "m ! i \<le> ?f' ! i + 1"
        "m ! i \<noteq> ?f' ! i \<longrightarrow> remainder ! i \<in> set vs"
        by simp_all
      show "floored ! i \<le> m ! i \<and> m ! i \<le> floored ! i + 1
         \<and> (m ! i \<noteq> floored ! i \<longrightarrow> remainder ! i \<in> set (v # vs))"
      proof (cases "i \<in> set chosen")
        case True
        with chosen_v v have "remainder ! i \<notin> set vs" "remainder ! i = v"
          by auto
        with b(3) have "m ! i = ?f' ! i"
          by blast
        with True i \<open>remainder ! i = v\<close> show ?thesis
          by simp
      next
        case False
        with i have "?f' ! i = floored ! i"
          by simp
        with b show ?thesis
          by auto
      qed
    qed
    moreover from ih(2) sum' gt add have "sum_list m = sum_list floored + int need"
      by simp
    ultimately show ?thesis
      using False unfold rec ih(1) by simp
  qed
qed




lemma sum_list_scale:
  fixes cs :: "int list"
  shows "sum_list (map (\<lambda>c. real_of_int c / t * n) cs) = real_of_int (sum_list cs) / t * n"
  by (induction cs) (simp_all add: add_divide_distrib distrib_right)

lemma sum_list_floor_le:
  fixes xs :: "real list"
  shows "real_of_int (sum_list (map floor xs)) \<le> sum_list xs"
  by (induction xs) (simp_all add: add_mono)

lemma sum_list_floor_gt:
  fixes xs :: "real list"
  shows "sum_list xs \<le> real_of_int (sum_list (map floor xs)) + real (length xs)"
proof (induction xs)
  case Nil
  show ?case by simp
next
  case (Cons x xs)
  have "x \<le> real_of_int \<lfloor>x\<rfloor> + 1"
    by linarith
  with Cons show ?case
    by simp linarith
qed

lemma approximate_mode_spec:
  assumes g: "valid_rng g" and pos: "0 < sum_list cs"
  shows "case approximate_mode g cs n_draws r of
           (m, r') \<Rightarrow>
             length m = length cs
           \<and> sum_list m = int n_draws
           \<and> (\<forall>i < length cs.
                 \<lfloor>real_of_int (cs ! i) / real_of_int (sum_list cs) * real n_draws\<rfloor> \<le> m ! i
               \<and> m ! i \<le> \<lfloor>real_of_int (cs ! i) / real_of_int (sum_list cs) * real n_draws\<rfloor> + 1)"
proof -
  let ?cont = "map (\<lambda>c. real_of_int c / real_of_int (sum_list cs) * real n_draws) cs"
  let ?fl = "map floor ?cont"
  let ?need = "int n_draws - sum_list ?fl"
  let ?rem = "map (\<lambda>c. c - real_of_int \<lfloor>c\<rfloor>) ?cont"
  let ?vs = "rev (sort (remdups ?rem))"
  have "sum_list ?cont = real_of_int (sum_list cs) / real_of_int (sum_list cs) * real n_draws"
    by (rule sum_list_scale)
  with pos have total: "sum_list ?cont = real n_draws"
    by simp
  have fl: "\<forall>i < length cs. ?fl ! i = \<lfloor>real_of_int (cs ! i) / real_of_int (sum_list cs) * real n_draws\<rfloor>"
    by simp
  have lo: "0 \<le> ?need"
    using sum_list_floor_le [of ?cont] total by linarith
  have hi: "?need \<le> int (length cs)"
    using sum_list_floor_gt [of ?cont] total by simp
  show ?thesis
  proof (cases "?need > 0")
    case False
    with lo have "sum_list ?fl = int n_draws"
      by simp
    with False fl show ?thesis
      by (simp add: approximate_mode_def Let_def)
  next
    case True
    have "{i. i < length ?rem \<and> ?rem ! i \<in> set ?vs} = {..<length cs}"
      by auto
    with hi True have need: "nat ?need \<le> card {i. i < length ?rem \<and> ?rem ! i \<in> set ?vs}"
      by simp
    have dv: "distinct ?vs"
      by simp
    have len: "length ?fl = length ?rem"
      by simp
    obtain m r' where res: "add_remainders g ?rem ?vs ?fl (nat ?need) r = (m, r')"
      by (cases "add_remainders g ?rem ?vs ?fl (nat ?need) r")
    from add_remainders_spec [OF g dv len need, of r] res
    have "length m = length ?fl" "sum_list m = sum_list ?fl + int (nat ?need)"
      "\<forall>i < length ?fl. ?fl ! i \<le> m ! i \<and> m ! i \<le> ?fl ! i + 1"
      by simp_all
    moreover from True res have "approximate_mode g cs n_draws r = (m, r')"
      by (simp add: approximate_mode_def Let_def)
    ultimately show ?thesis
      using True by simp
  qed
qed

lemma approximate_mode_exact:
  assumes sum: "sum_list cs = int n" and n: "0 < n"
  shows "approximate_mode g cs n r = (cs, r)"
proof -
  from n have c: "map (\<lambda>c. real_of_int c / real_of_int (sum_list cs) * real n) cs = map real_of_int cs"
    unfolding sum by simp
  have f: "map floor (map real_of_int cs) = cs"
    by (simp add: comp_def)
  show ?thesis
    unfolding approximate_mode_def Let_def c f using sum by simp
qed




lemma mset_map_permutation:
  assumes "mset p = mset [0..<length xs]"
  shows "mset (map (\<lambda>k. xs ! k) p) = mset xs"
proof -
  have "mset (map (\<lambda>k. xs ! k) p) = image_mset (\<lambda>k. xs ! k) (mset p)"
    by simp
  also have "\<dots> = mset (map (\<lambda>k. xs ! k) [0..<length xs])"
    unfolding assms by simp
  also have "\<dots> = mset xs"
    by (simp add: map_nth)
  finally show ?thesis .
qed

lemma mset_take_clip:
  assumes "mset p = mset [0..<length xs]"
  shows "mset (map (\<lambda>k. xs ! min k (length xs - 1)) p) = mset xs"
proof -
  from assms have "set p = {0..<length xs}"
    by (metis set_mset_mset set_upt)
  then have eq: "map (\<lambda>k. xs ! min k (length xs - 1)) p = map (\<lambda>k. xs ! k) p"
    by (intro map_cong) auto
  show ?thesis
    unfolding eq by (rule mset_map_permutation [OF assms])
qed

lemma mset_concat_classes:
  assumes "\<forall>x \<in> set xs. f x < k"
  shows "mset (concat (map (\<lambda>c. filter (\<lambda>j. f j = c) xs) [0..<k])) = mset xs"
proof -
  have below: "mset (concat (map (\<lambda>c. filter (\<lambda>j. f j = c) xs) [0..<m])) = mset (filter (\<lambda>j. f j < m) xs)"
    for m
  proof (induction m)
    case 0
    show ?case by simp
  next
    case (Suc m)
    have "mset (filter (\<lambda>j. f j < m) xs) + mset (filter (\<lambda>j. f j = m) xs)
        = mset (filter (\<lambda>j. f j < Suc m) xs)"
      by (induction xs) auto
    with Suc show ?case
      by simp
  qed
  from assms have all: "filter (\<lambda>j. f j < k) xs = xs"
    by (simp add: filter_id_conv)
  show ?thesis
    by (simp only: below all)
qed

lemma count_list_indices:
  "length (filter (\<lambda>j. ys ! j = c) [0..<length ys]) = count_list ys c"
proof -
  have "count_list ys c = length (filter (\<lambda>y. y = c) ys)"
    by (induction ys) auto
  also have "\<dots> = length (filter (\<lambda>y. y = c) (map (\<lambda>j. ys ! j) [0..<length ys]))"
    by (simp add: map_nth)
  also have "\<dots> = length (filter (\<lambda>j. ys ! j = c) [0..<length ys])"
    by (simp add: filter_map comp_def)
  finally show ?thesis
    by simp
qed

lemma split_classes_chunks:
  assumes g: "valid_rng g"
    and ok: "\<forall>(ci, n, t) \<in> set triples. 0 \<le> n \<and> 0 \<le> t \<and> nat n + nat t = length ci"
  shows "\<exists>chunks r'.
           split_classes g triples r = (concat (map fst chunks), concat (map snd chunks), r')
         \<and> list_all2 (\<lambda>(ci, n, t) (a, b). length a = nat n \<and> mset a + mset b = mset ci)
              triples chunks"
  using ok
proof (induction triples arbitrary: r)
  case Nil
  have "split_classes g [] r = (concat (map fst []), concat (map snd []), r)
      \<and> list_all2 (\<lambda>(ci, n, t) (a, b). length a = nat n \<and> mset a + mset b = mset ci) [] []"
    by simp
  then show ?case
    by blast
next
  case (Cons x triples)
  obtain ci n t where x: "x = (ci, n, t)"
    by (cases x)
  obtain perm r1 where p: "permutation g r (length ci) = (perm, r1)"
    by (cases "permutation g r (length ci)")
  let ?pi = "map (\<lambda>k. ci ! min k (length ci - 1)) perm"
  from g have "mset (fst (permutation g r (length ci))) = mset [0..<length ci]"
    by (simp add: valid_rng_def)
  with p have mp: "mset perm = mset [0..<length ci]"
    by simp
  then have mpi: "mset ?pi = mset ci"
    by (rule mset_take_clip)
  then have lpi: "length ?pi = length ci"
    by (metis size_mset)
  from Cons.prems x have nt: "0 \<le> n" "0 \<le> t" "nat n + nat t = length ci"
    by auto
  let ?a = "take (nat n) ?pi" and ?b = "take (nat t) (drop (nat n) ?pi)"
  from nt lpi have b: "?b = drop (nat n) ?pi"
    by simp
  from nt lpi have la: "length ?a = nat n"
    by simp
  have "mset ?a + mset ?b = mset (?a @ drop (nat n) ?pi)"
    unfolding b by (simp only: mset_append)
  also have "?a @ drop (nat n) ?pi = ?pi"
    by (rule append_take_drop_id)
  finally have mab: "mset ?a + mset ?b = mset ci"
    by (simp only: mpi)
  from Cons.prems have "\<forall>(ci, n, t) \<in> set triples. 0 \<le> n \<and> 0 \<le> t \<and> nat n + nat t = length ci"
    by simp
  from Cons.IH [OF this, of r1] obtain chunks r' where
    rec: "split_classes g triples r1 = (concat (map fst chunks), concat (map snd chunks), r')"
    and all: "list_all2 (\<lambda>(ci, n, t) (a, b). length a = nat n \<and> mset a + mset b = mset ci)
                triples chunks"
    by blast
  have "split_classes g (x # triples) r
      = (concat (map fst ((?a, ?b) # chunks)), concat (map snd ((?a, ?b) # chunks)), r')"
    using x p rec by (simp add: Let_def)
  moreover have "list_all2 (\<lambda>(ci, n, t) (a, b). length a = nat n \<and> mset a + mset b = mset ci)
      (x # triples) ((?a, ?b) # chunks)"
    using x la mab all by simp
  ultimately show ?case
    by blast
qed




lemma chunks_mset:
  assumes "list_all2 (\<lambda>(ci, n, t) (a, b). length a = nat n \<and> mset a + mset b = mset ci)
             triples chunks"
  shows "mset (concat (map fst chunks)) + mset (concat (map snd chunks))
       = mset (concat (map fst triples))"
  using assms
proof (induction rule: list_all2_induct)
  case Nil
  show ?case by simp
next
  case (Cons x triples y chunks)
  obtain ci n t a b where "x = (ci, n, t)" "y = (a, b)"
    by (cases x, cases y) auto
  with Cons show ?case
    by (simp add: ac_simps)
qed

lemma chunks_length:
  assumes "list_all2 (\<lambda>(ci, n, t) (a, b). length a = nat n \<and> mset a + mset b = mset ci)
             triples chunks"
  shows "length (concat (map fst chunks)) = sum_list (map (\<lambda>(ci, n, t). nat n) triples)"
  using assms
proof (induction rule: list_all2_induct)
  case Nil
  show ?case by simp
next
  case (Cons x triples y chunks)
  obtain ci n t a b where "x = (ci, n, t)" "y = (a, b)"
    by (cases x, cases y) auto
  with Cons show ?case
    by simp
qed

lemma chunks_filter:
  assumes "list_all2 (\<lambda>(ci, n, t) (a, b). length a = nat n \<and> mset a + mset b = mset ci)
             triples chunks"
    and "\<forall>(ci, n, t) \<in> set triples. (\<forall>j \<in> set ci. P j) \<or> (\<forall>j \<in> set ci. \<not> P j)"
  shows "length (filter P (concat (map fst chunks)))
       = sum_list (map (\<lambda>(ci, n, t). if \<forall>j \<in> set ci. P j then nat n else 0) triples)"
  using assms
proof (induction rule: list_all2_induct)
  case Nil
  show ?case by simp
next
  case (Cons x triples y chunks)
  obtain ci n t a b where x: "x = (ci, n, t)" and y: "y = (a, b)"
    by (cases x, cases y) auto
  from Cons.hyps(1) x y have la: "length a = nat n" and m: "mset a + mset b = mset ci"
    by simp_all
  from m have sub: "set a \<subseteq> set ci"
    by (metis set_mset_mset union_iff subsetI)
  from Cons.prems x have dich: "(\<forall>j \<in> set ci. P j) \<or> (\<forall>j \<in> set ci. \<not> P j)"
    by simp
  have head: "length (filter P a) = (if \<forall>j \<in> set ci. P j then nat n else 0)"
  proof (cases "\<forall>j \<in> set ci. P j")
    case True
    with sub have "filter P a = a"
      by (auto simp: filter_id_conv)
    with True la show ?thesis
      by simp
  next
    case False
    with dich have "\<forall>j \<in> set ci. \<not> P j"
      by blast
    with sub have "filter P a = []"
      by (auto simp: filter_empty_conv)
    moreover from False have "(if \<forall>j \<in> set ci. P j then nat n else 0) = 0"
      by (simp only: if_False)
    ultimately show ?thesis
      by (simp only: list.size)
  qed
  from Cons.prems have "\<forall>(ci, n, t) \<in> set triples. (\<forall>j \<in> set ci. P j) \<or> (\<forall>j \<in> set ci. \<not> P j)"
    by auto
  then have "length (filter P (concat (map fst chunks)))
       = sum_list (map (\<lambda>(ci, n, t). if \<forall>j \<in> set ci. P j then nat n else 0) triples)"
    by (rule Cons.IH)
  with head show ?case
    unfolding x y by simp
qed

lemma zip3_upt:
  assumes "length bs = length as" and "length cs = length as"
  shows "zip as (zip bs cs) = map (\<lambda>i. (as ! i, bs ! i, cs ! i)) [0..<length as]"
  using assms by (intro nth_equalityI) simp_all

lemma sum_list_delta:
  fixes v :: nat
  assumes "c < k"
  shows "sum_list (map (\<lambda>i. if i = c then v else 0) [0..<k]) = v"
proof -
  have "sum_list (map (\<lambda>i. if i = c then v else 0) [0..<k])
      = (\<Sum>i \<in> set [0..<k]. if i = c then v else 0)"
    by (rule interv_sum_list_conv_sum_set_nat)
  also from assms have "\<dots> = v"
    by simp
  finally show ?thesis .
qed

lemma sum_list_nat:
  assumes "\<forall>x \<in> set xs. (0::int) \<le> x"
  shows "int (sum_list (map nat xs)) = sum_list xs"
  using assms by (induction xs) simp_all

lemma sum_list_zip_diff:
  assumes "length cs = length ms"
  shows "sum_list (map (\<lambda>(c, m). int c - m) (zip cs ms)) = sum_list (map int cs) - sum_list ms"
  using assms by (induction cs ms rule: list_induct2) simp_all





lemma class_counts_total:
  assumes cls: "\<forall>x \<in> set y_idx. x < K"
  shows "sum_list (map (\<lambda>c. int (count_list y_idx c)) [0..<K]) = int (length y_idx)"
proof -
  let ?n = "length y_idx"
  let ?ci = "map (\<lambda>c. filter (\<lambda>j. y_idx ! j = c) [0..<?n]) [0..<K]"
  have "mset (concat ?ci) = mset [0..<?n]"
    using cls by (intro mset_concat_classes) auto
  then have "length (concat ?ci) = ?n"
    by (metis size_mset length_upt diff_zero)
  moreover have "length (concat ?ci) = sum_list (map (\<lambda>c. count_list y_idx c) [0..<K])"
    by (simp add: length_concat comp_def count_list_indices)
  ultimately have "sum_list (map (\<lambda>c. count_list y_idx c) [0..<K]) = ?n"
    by simp
  then have "int (sum_list (map (\<lambda>c. count_list y_idx c) [0..<K])) = int ?n"
    by simp
  then show ?thesis
    by (simp only: sum_list_of_nat [where ?'a = int, symmetric] map_map comp_def)
qed

lemma allocation_le_count:
  assumes c: "0 < c" and ntr: "n_train < n"
    and b: "m \<le> \<lfloor>real c / real n * real n_train\<rfloor> + 1"
  shows "m \<le> int c"
proof -
  from ntr have "real n_train / real n < 1"
    by simp
  with c have "real c * (real n_train / real n) < real c * 1"
    by (intro mult_strict_left_mono) simp_all
  then have "real c / real n * real n_train < real c"
    by (simp add: field_simps)
  then have "\<lfloor>real c / real n * real n_train\<rfloor> < int c"
    by (simp add: floor_less_iff)
  with b show ?thesis
    by linarith
qed




lemma stratified_shuffle_split_spec:
  assumes g: "valid_rng g"
    and cls: "\<forall>x \<in> set y_idx. x < K"
    and n: "n_train + n_test = length y_idx" and nte: "0 < n_test"
    and res: "stratified_shuffle_split g K y_idx n_train n_test = Inr (train, test)"
  shows "mset train + mset test = mset [0..<length y_idx]"
    and "length train = n_train"
    and "\<forall>c < K.
           \<lfloor>real (count_list y_idx c) / real (length y_idx) * real n_train\<rfloor>
             \<le> int (length (filter (\<lambda>j. y_idx ! j = c) train))
         \<and> int (length (filter (\<lambda>j. y_idx ! j = c) train))
             \<le> \<lfloor>real (count_list y_idx c) / real (length y_idx) * real n_train\<rfloor> + 1"
proof -
  define cc where "cc = map (\<lambda>c. count_list y_idx c) [0..<K]"
  define ci where "ci = map (\<lambda>c. filter (\<lambda>j. y_idx ! j = c) [0..<length y_idx]) [0..<K]"
  have lcc: "length cc = K" and lci: "length ci = K"
    by (simp_all add: cc_def ci_def)
  have cc_nth: "cc ! i = count_list y_idx i" if "i < K" for i
    using that by (simp add: cc_def)
  have ci_nth: "ci ! i = filter (\<lambda>j. y_idx ! j = i) [0..<length y_idx]" if "i < K" for i
    using that by (simp add: ci_def)
  have len_ci: "length (ci ! i) = cc ! i" if "i < K" for i
    using that by (simp add: cc_nth ci_nth count_list_indices)
  from res have ge2: "\<forall>c \<in> set cc. 2 \<le> c"
    unfolding cc_def by (auto simp: stratified_shuffle_split_def Let_def split: if_splits)
  have cpos: "0 < cc ! i" if "i < K" for i
  proof -
    from that lcc have "cc ! i \<in> set cc"
      by simp
    with ge2 have "2 \<le> cc ! i"
      by blast
    then show ?thesis
      by simp
  qed
  have cover: "mset (concat ci) = mset [0..<length y_idx]"
    unfolding ci_def using cls by (intro mset_concat_classes) auto
  have total: "sum_list (map int cc) = int (length y_idx)"
    unfolding cc_def using class_counts_total [OF cls] by (simp add: comp_def)
  from n nte have npos: "0 < length y_idx" and ntr: "n_train < length y_idx"
    by linarith+
  obtain n_i r1 where am: "approximate_mode g (map int cc) n_train (seed g 42) = (n_i, r1)"
    by (cases "approximate_mode g (map int cc) n_train (seed g 42)")
  from npos total have pos: "0 < sum_list (map int cc)"
    by simp
  have spec: "length n_i = length (map int cc) \<and> sum_list n_i = int n_train
      \<and> (\<forall>i < length (map int cc).
            \<lfloor>real_of_int (map int cc ! i) / real_of_int (sum_list (map int cc)) * real n_train\<rfloor> \<le> n_i ! i
          \<and> n_i ! i \<le> \<lfloor>real_of_int (map int cc ! i) / real_of_int (sum_list (map int cc)) * real n_train\<rfloor> + 1)"
    using approximate_mode_spec [OF g pos, of n_train "seed g 42"] unfolding am prod.case .
  from spec lcc have ln: "length n_i = K" and sn: "sum_list n_i = int n_train"
    by simp_all
  have bn: "\<lfloor>real (cc ! i) / real (length y_idx) * real n_train\<rfloor> \<le> n_i ! i
          \<and> n_i ! i \<le> \<lfloor>real (cc ! i) / real (length y_idx) * real n_train\<rfloor> + 1"
    if "i < K" for i
  proof -
    from that lcc have "i < length (map int cc)"
      by simp
    with spec have "\<lfloor>real_of_int (map int cc ! i) / real_of_int (sum_list (map int cc)) * real n_train\<rfloor> \<le> n_i ! i
          \<and> n_i ! i \<le> \<lfloor>real_of_int (map int cc ! i) / real_of_int (sum_list (map int cc)) * real n_train\<rfloor> + 1"
      by blast
    moreover from that lcc have "map int cc ! i = int (cc ! i)"
      by simp
    ultimately show ?thesis
      unfolding total by simp
  qed
  have n0: "0 \<le> n_i ! i" if "i < K" for i
  proof -
    have "0 \<le> \<lfloor>real (cc ! i) / real (length y_idx) * real n_train\<rfloor>"
      by simp
    with bn [OF that] show ?thesis
      by linarith
  qed
  have nc: "n_i ! i \<le> int (cc ! i)" if "i < K" for i
    using cpos [OF that] ntr bn [OF that] by (intro allocation_le_count) blast+
  define rem where "rem = map (\<lambda>(c, m). int c - m) (zip cc n_i)"
  have lr: "length rem = K"
    by (simp add: rem_def ln lcc)
  have rem_nth: "rem ! i = int (cc ! i) - n_i ! i" if "i < K" for i
    using that by (simp add: rem_def ln lcc)
  have "sum_list rem = sum_list (map int cc) - sum_list n_i"
    unfolding rem_def by (rule sum_list_zip_diff) (simp add: ln lcc)
  with total sn n have sr: "sum_list rem = int n_test"
    by simp
  have am2: "approximate_mode g rem n_test r1 = (rem, r1)"
    using sr nte by (rule approximate_mode_exact)
  define triples where "triples = zip ci (zip n_i rem)"
  have tr: "triples = map (\<lambda>i. (ci ! i, n_i ! i, rem ! i)) [0..<K]"
    unfolding triples_def using zip3_upt [of n_i ci rem] ln lr lci by simp
  have ok: "\<forall>(xs, m, t) \<in> set triples. 0 \<le> m \<and> 0 \<le> t \<and> nat m + nat t = length xs"
  proof -
    have "0 \<le> n_i ! i \<and> 0 \<le> rem ! i \<and> nat (n_i ! i) + nat (rem ! i) = length (ci ! i)"
      if "i < K" for i
      using n0 [OF that] nc [OF that] rem_nth [OF that] len_ci [OF that] by linarith
    then show ?thesis
      unfolding tr by auto
  qed
  from split_classes_chunks [OF g ok, of r1] obtain chunks r3 where
    sc: "split_classes g triples r1 = (concat (map fst chunks), concat (map snd chunks), r3)"
    and all: "list_all2 (\<lambda>(ci, n, t) (a, b). length a = nat n \<and> mset a + mset b = mset ci)
                triples chunks"
    by blast
  define tr0 where "tr0 = concat (map fst chunks)"
  define te0 where "te0 = concat (map snd chunks)"
  obtain ptr r4 where p1: "permutation g r3 (length tr0) = (ptr, r4)"
    by (cases "permutation g r3 (length tr0)")
  obtain pte r5 where p2: "permutation g r4 (length te0) = (pte, r5)"
    by (cases "permutation g r4 (length te0)")
  from g have "mset (fst (permutation g r3 (length tr0))) = mset [0..<length tr0]"
    by (simp add: valid_rng_def)
  with p1 have mptr: "mset ptr = mset [0..<length tr0]"
    by simp
  from g have "mset (fst (permutation g r4 (length te0))) = mset [0..<length te0]"
    by (simp add: valid_rng_def)
  with p2 have mpte: "mset pte = mset [0..<length te0]"
    by simp
  have no_small: "\<not> (\<exists>c \<in> set cc. c < 2)"
    using ge2 by auto
  from res have "stratified_shuffle_split g K y_idx n_train n_test
      = Inr (map (\<lambda>k. tr0 ! k) ptr, map (\<lambda>k. te0 ! k) pte)"
    unfolding stratified_shuffle_split_def Let_def cc_def [symmetric] ci_def [symmetric]
    unfolding am prod.case rem_def [symmetric] am2 triples_def [symmetric] sc
      tr0_def [symmetric] te0_def [symmetric] p1 p2
    using no_small by (simp split: if_splits)
  with res have train: "train = map (\<lambda>k. tr0 ! k) ptr" and test: "test = map (\<lambda>k. te0 ! k) pte"
    by simp_all
  have mtrain: "mset train = mset tr0"
    unfolding train by (rule mset_map_permutation [OF mptr])
  have mtest: "mset test = mset te0"
    unfolding test by (rule mset_map_permutation [OF mpte])
  have fst_tr: "map fst triples = ci"
    unfolding triples_def using ln lr lci by (simp add: map_fst_zip)
  from chunks_mset [OF all] show "mset train + mset test = mset [0..<length y_idx]"
    unfolding mtrain mtest fst_tr cover tr0_def te0_def .
  have "length train = length tr0"
    using mtrain by (metis size_mset)
  also have "\<dots> = sum_list (map (\<lambda>(ci, n, t). nat n) triples)"
    unfolding tr0_def by (rule chunks_length [OF all])
  also have "\<dots> = sum_list (map (\<lambda>i. nat (n_i ! i)) [0..<K])"
    unfolding tr by (simp add: comp_def)
  also have "map (\<lambda>i. nat (n_i ! i)) [0..<K] = map nat n_i"
    using ln by (intro nth_equalityI) simp_all
  finally have "int (length train) = int (sum_list (map nat n_i))"
    by simp
  also have "\<dots> = sum_list n_i"
    using n0 ln by (intro sum_list_nat) (auto simp: in_set_conv_nth)
  finally show "length train = n_train"
    using sn by simp
  show "\<forall>c < K.
           \<lfloor>real (count_list y_idx c) / real (length y_idx) * real n_train\<rfloor>
             \<le> int (length (filter (\<lambda>j. y_idx ! j = c) train))
         \<and> int (length (filter (\<lambda>j. y_idx ! j = c) train))
             \<le> \<lfloor>real (count_list y_idx c) / real (length y_idx) * real n_train\<rfloor> + 1"
  proof (intro allI impI)
    fix c assume c: "c < K"
    define P where "P = (\<lambda>j. y_idx ! j = c)"
    have same: "(\<forall>j \<in> set (ci ! i). P j) \<longleftrightarrow> i = c" if i: "i < K" for i
    proof
      assume a: "\<forall>j \<in> set (ci ! i). P j"
      from cpos [OF i] len_ci [OF i] have "ci ! i \<noteq> []"
        by auto
      then obtain j where j: "j \<in> set (ci ! i)"
        by (meson last_in_set)
      with a have "y_idx ! j = c"
        by (simp add: P_def)
      moreover from j have "y_idx ! j = i"
        by (simp add: ci_nth [OF i])
      ultimately show "i = c"
        by simp
    next
      assume "i = c"
      then show "\<forall>j \<in> set (ci ! i). P j"
        by (simp add: ci_nth [OF c] P_def)
    qed
    have other: "\<forall>j \<in> set (ci ! i). \<not> P j" if i: "i < K" and "i \<noteq> c" for i
      using that by (simp add: ci_nth [OF i] P_def)
    have dich: "\<forall>(xs, m, t) \<in> set triples. (\<forall>j \<in> set xs. P j) \<or> (\<forall>j \<in> set xs. \<not> P j)"
      unfolding tr using same other by auto
    have "length (filter P train) = length (filter P tr0)"
      using mtrain by (rule length_filter_mset)
    also have "\<dots> = sum_list (map (\<lambda>(ci, n, t). if \<forall>j \<in> set ci. P j then nat n else 0) triples)"
      unfolding tr0_def by (rule chunks_filter [OF all dich])
    also have "\<dots> = sum_list (map (\<lambda>i. if \<forall>j \<in> set (ci ! i). P j then nat (n_i ! i) else 0) [0..<K])"
      unfolding tr by (simp add: comp_def)
    also have "map (\<lambda>i. if \<forall>j \<in> set (ci ! i). P j then nat (n_i ! i) else 0) [0..<K]
        = map (\<lambda>i. if i = c then nat (n_i ! c) else 0) [0..<K]"
      using same by (intro map_cong) auto
    also have "sum_list (map (\<lambda>i. if i = c then nat (n_i ! c) else 0) [0..<K]) = nat (n_i ! c)"
      using c by (rule sum_list_delta)
    finally have "int (length (filter P train)) = n_i ! c"
      using n0 [OF c] by simp
    with bn [OF c] cc_nth [OF c]
    show "\<lfloor>real (count_list y_idx c) / real (length y_idx) * real n_train\<rfloor>
             \<le> int (length (filter (\<lambda>j. y_idx ! j = c) train))
         \<and> int (length (filter (\<lambda>j. y_idx ! j = c) train))
             \<le> \<lfloor>real (count_list y_idx c) / real (length y_idx) * real n_train\<rfloor> + 1"
      by (simp add: P_def)
  qed
qed




lemma valid_counting_rng: "valid_rng counting_rng"
  by (auto simp: valid_rng_def counting_rng_def dest: in_set_takeD)

lemma proportion_bounds:
  fixes tr te k :: nat and n n_train n_test :: nat
  assumes lo: "\<lfloor>real k / real n * real n_train\<rfloor> \<le> int tr"
    and hi: "int tr \<le> \<lfloor>real k / real n * real n_train\<rfloor> + 1"
    and sum: "tr + te = k" and n: "n_train + n_test = n"
    and ptr: "0 < n_train" and pte: "0 < n_test"
  shows "\<bar>real tr / real n_train - real k / real n\<bar> \<le> 1 / real n_train"
    and "\<bar>real te / real n_test - real k / real n\<bar> \<le> 1 / real n_test"
proof -
  define x where "x = real k / real n * real n_train"
  from n ptr have npos: "0 < real n"
    by simp
  from lo hi have d: "\<bar>real tr - x\<bar> \<le> 1"
    unfolding x_def by linarith
  have "real tr / real n_train - real k / real n = (real tr - x) / real n_train"
    using ptr npos by (simp add: x_def field_simps)
  then have "\<bar>real tr / real n_train - real k / real n\<bar> = \<bar>real tr - x\<bar> / real n_train"
    by simp
  also from d have "\<dots> \<le> 1 / real n_train"
    by (rule divide_right_mono) simp
  finally show "\<bar>real tr / real n_train - real k / real n\<bar> \<le> 1 / real n_train" .
  from sum have te: "real te = real k - real tr"
    by linarith
  from n have nn: "real n_test = real n - real n_train"
    by linarith
  have "real k = real k / real n * real n"
    using npos by simp
  then have "real k - x = real k / real n * real n_test"
    unfolding x_def nn by (simp add: right_diff_distrib)
  then have "real te - real k / real n * real n_test = x - real tr"
    unfolding te by linarith
  then have "real te / real n_test - real k / real n = (x - real tr) / real n_test"
    using pte by (simp add: field_simps)
  then have "\<bar>real te / real n_test - real k / real n\<bar> = \<bar>real tr - x\<bar> / real n_test"
    by (simp add: abs_minus_commute)
  also from d have "\<dots> \<le> 1 / real n_test"
    by (rule divide_right_mono) simp
  finally show "\<bar>real te / real n_test - real k / real n\<bar> \<le> 1 / real n_test" .
qed




lemma validate_shuffle_split_Inr:
  assumes "validate_shuffle_split n = Inr (n_train, n_test)"
  shows "n_test = nat \<lceil>0.2 * real n\<rceil>" and "n_train + n_test = n"
    and "0 < n_train" and "0 < n_test"
proof -
  define t where "t = nat \<lceil>0.2 * real n\<rceil>"
  have "validate_shuffle_split n = (if n - t = 0 then Inl ValueError else Inr (n - t, t))"
    by (simp add: validate_shuffle_split_def Let_def t_def)
  with assms have *: "(if n - t = 0 then Inl ValueError else Inr (n - t, t)) = Inr (n_train, n_test)"
    by simp
  then have nz: "n - t \<noteq> 0"
    by (cases "n - t = 0") simp_all
  with * have tr: "n_train = n - t" and te: "n_test = t"
    by auto
  from te show "n_test = nat \<lceil>0.2 * real n\<rceil>"
    by (simp add: t_def)
  from nz tr te show "n_train + n_test = n" and "0 < n_train"
    by linarith+
  from nz have "0 < real n"
    by simp
  then have "0 < 0.2 * real n"
    by simp
  then have "0 < \<lceil>0.2 * real n\<rceil>"
    by (simp only: less_ceiling_iff of_int_0)
  with te show "0 < n_test"
    by (simp add: t_def)
qed

lemma label_classes_Inr:
  assumes "label_classes (NumCol ys) = Inr (K, y_idx)"
  shows "None \<notin> set ys"
    and "K = length (sort (remdups (map the ys)))"
    and "y_idx = map (\<lambda>e. index_of (sort (remdups (map the ys))) (the e)) ys"
proof -
  from assms have ok: "\<not> (\<exists>y \<in> set ys. y = None \<or> is_inf y)"
    by (auto split: if_splits)
  then show "None \<notin> set ys"
    by blast
  from assms ok have "unique_inverse (map the ys) = (K, y_idx)"
    by (simp split: if_splits)
  then show "K = length (sort (remdups (map the ys)))"
    and "y_idx = map (\<lambda>e. index_of (sort (remdups (map the ys))) (the e)) ys"
    by (simp_all add: unique_inverse_def Let_def comp_def)
qed

lemma class_of_label:
  fixes ys :: "'a::linorder option list"
  assumes nn: "None \<notin> set ys"
    and y: "y_idx = map (\<lambda>e. index_of classes (the e)) ys"
    and cl: "set classes = the ` set ys"
  shows "\<forall>x \<in> set y_idx. x < length classes"
    and "\<And>v. Some v \<in> set ys \<Longrightarrow> index_of classes v < length classes"
    and "\<And>j v. j < length ys \<Longrightarrow> Some v \<in> set ys \<Longrightarrow>
           y_idx ! j = index_of classes v \<longleftrightarrow> ys ! j = Some v"
proof -
  have mem: "v \<in> set classes" if "Some v \<in> set ys" for v
  proof -
    from that have "the (Some v) \<in> the ` set ys"
      by (rule imageI)
    then show ?thesis
      unfolding cl by simp
  qed
  have entry: "\<exists>w. e = Some w \<and> w \<in> set classes" if "e \<in> set ys" for e
  proof -
    from that nn have "e \<noteq> None"
      by metis
    then obtain w where "e = Some w"
      by blast
    with that mem show ?thesis
      by blast
  qed
  show "\<forall>x \<in> set y_idx. x < length classes"
  proof
    fix x assume "x \<in> set y_idx"
    then obtain e where e: "e \<in> set ys" and x: "x = index_of classes (the e)"
      unfolding y by auto
    from entry [OF e] obtain w where w: "e = Some w" "w \<in> set classes"
      by blast
    from w(2) have "index_of classes w < length classes"
      by (rule index_of_less)
    with x w(1) show "x < length classes"
      by (metis option.sel)
  qed
  show "index_of classes v < length classes" if "Some v \<in> set ys" for v
    using mem [OF that] by (rule index_of_less)
  show "y_idx ! j = index_of classes v \<longleftrightarrow> ys ! j = Some v"
    if j: "j < length ys" and v: "Some v \<in> set ys" for j v
  proof -
    from j have "ys ! j \<in> set ys"
      by (rule nth_mem)
    from entry [OF this] obtain w where w: "ys ! j = Some w" and mw: "w \<in> set classes"
      by blast
    from j w have yj: "y_idx ! j = index_of classes w"
      unfolding y by simp
    show "y_idx ! j = index_of classes v \<longleftrightarrow> ys ! j = Some v"
    proof
      assume "y_idx ! j = index_of classes v"
      with yj have "index_of classes w = index_of classes v"
        by (rule trans [OF sym])
      then have "classes ! index_of classes w = classes ! index_of classes v"
        by (rule arg_cong)
      with nth_index_of [OF mw] nth_index_of [OF mem [OF v]] have "w = v"
        by metis
      with w show "ys ! j = Some v"
        by blast
    next
      assume "ys ! j = Some v"
      with w have "w = v"
        by (metis option.inject)
      with yj show "y_idx ! j = index_of classes v"
        by blast
    qed
  qed
qed




lemma split_indices_spec:
  assumes g: "valid_rng g" and res: "split_indices g (NumCol ys) = Inr (train, test)"
  shows "length test = nat \<lceil>0.2 * real (length ys)\<rceil>
       \<and> length train + length test = length ys
       \<and> mset train + mset test = mset [0..<length ys]
       \<and> set train \<inter> set test = {}
       \<and> (\<forall>v. \<bar>label_share ys train v - label_share ys [0..<length ys] v\<bar>
                \<le> 1 / real (length train))
       \<and> (\<forall>v. \<bar>label_share ys test v - label_share ys [0..<length ys] v\<bar>
                \<le> 1 / real (length test))"
proof -
  define n where "n = length ys"
  define classes where "classes = sort (remdups (map the ys))"
  from res obtain n_train n_test K y_idx where
    v: "validate_shuffle_split n = Inr (n_train, n_test)" and
    lc: "label_classes (NumCol ys) = Inr (K, y_idx)" and
    sss: "stratified_shuffle_split g K y_idx n_train n_test = Inr (train, test)"
    unfolding n_def by (auto simp: split_indices_def split: sum.splits prod.splits)
  note vs = validate_shuffle_split_Inr [OF v]
  from label_classes_Inr [OF lc] have nn: "None \<notin> set ys" and K: "K = length classes"
    and y: "y_idx = map (\<lambda>e. index_of classes (the e)) ys"
    unfolding classes_def by blast+
  have cl: "set classes = the ` set ys"
    by (simp add: classes_def)
  note cls = class_of_label [OF nn y cl]
  from y have ly: "length y_idx = n"
    by (simp add: n_def)
  from vs(2) ly have nsum: "n_train + n_test = length y_idx"
    by simp
  from cls(1) K have below: "\<forall>x \<in> set y_idx. x < K"
    by simp
  note spec = stratified_shuffle_split_spec [OF g below nsum vs(4) sss]
  from spec(1) ly have M: "mset train + mset test = mset [0..<n]"
    by simp
  from spec(2) have ltr: "length train = n_train" .
  from M have "size (mset train + mset test) = size (mset [0..<n])"
    by (rule arg_cong)
  then have lsum: "length train + length test = n"
    by simp
  with ltr vs(2) have lte: "length test = n_test"
    by linarith
  from M have "mset (train @ test) = mset [0..<n]"
    by simp
  then have "distinct (train @ test)"
    by (metis distinct_upt mset_eq_imp_distinct_iff)
  then have disj: "set train \<inter> set test = {}"
    by simp
  from M have "set_mset (mset train + mset test) = set_mset (mset [0..<n])"
    by (rule arg_cong)
  then have range: "set train \<union> set test = {0..<n}"
    by simp
  have share: "\<bar>label_share ys train v - label_share ys [0..<length ys] v\<bar> \<le> 1 / real (length train)
      \<and> \<bar>label_share ys test v - label_share ys [0..<length ys] v\<bar> \<le> 1 / real (length test)"
    for v
  proof -
    define P where "P = (\<lambda>j. ys ! j = Some v)"
    define k where "k = count_list ys (Some v)"
    define tr where "tr = length (filter P train)"
    define te where "te = length (filter P test)"
    have all: "length (filter P [0..<n]) = k"
      unfolding P_def k_def n_def by (rule count_list_indices)
    from M have "mset (train @ test) = mset [0..<n]"
      by simp
    then have "length (filter P (train @ test)) = length (filter P [0..<n])"
      by (rule length_filter_mset)
    with all have sum: "tr + te = k"
      by (simp add: tr_def te_def)
    have bounds: "\<lfloor>real k / real n * real n_train\<rfloor> \<le> int tr
        \<and> int tr \<le> \<lfloor>real k / real n * real n_train\<rfloor> + 1"
    proof (cases "Some v \<in> set ys")
      case True
      define c where "c = index_of classes v"
      from cls(2) [OF True] K have c: "c < K"
        by (simp add: c_def)
      have eq: "(y_idx ! j = c) = P j" if "j < n" for j
        using cls(3) [OF _ True, of j] that unfolding c_def P_def n_def by blast
      from range have "\<forall>j \<in> set train. j < n"
        by auto
      with eq have "filter (\<lambda>j. y_idx ! j = c) train = filter P train"
        by (intro filter_cong) auto
      then have t: "length (filter (\<lambda>j. y_idx ! j = c) train) = tr"
        by (simp add: tr_def)
      from eq have "filter (\<lambda>j. y_idx ! j = c) [0..<n] = filter P [0..<n]"
        by (intro filter_cong) auto
      with all have "length (filter (\<lambda>j. y_idx ! j = c) [0..<length y_idx]) = k"
        unfolding ly by simp
      then have kk: "count_list y_idx c = k"
        by (simp only: count_list_indices)
      from spec(3) c have "\<lfloor>real (count_list y_idx c) / real (length y_idx) * real n_train\<rfloor>
             \<le> int (length (filter (\<lambda>j. y_idx ! j = c) train))
         \<and> int (length (filter (\<lambda>j. y_idx ! j = c) train))
             \<le> \<lfloor>real (count_list y_idx c) / real (length y_idx) * real n_train\<rfloor> + 1"
        by blast
      then show ?thesis
        unfolding t kk ly .
    next
      case False
      then have "k = 0"
        by (simp add: k_def)
      with sum have "tr = 0"
        by simp
      with \<open>k = 0\<close> show ?thesis
        by simp
    qed
    from bounds have lo: "\<lfloor>real k / real n * real n_train\<rfloor> \<le> int tr"
      and hi: "int tr \<le> \<lfloor>real k / real n * real n_train\<rfloor> + 1"
      by blast+
    have whole: "label_share ys [0..<length ys] v = real k / real n"
      unfolding label_share_def P_def [symmetric] n_def [symmetric] all by simp
    have "\<bar>real tr / real n_train - real k / real n\<bar> \<le> 1 / real n_train"
      using lo hi sum vs(2) vs(3) vs(4) by (rule proportion_bounds)
    moreover have "\<bar>real te / real n_test - real k / real n\<bar> \<le> 1 / real n_test"
      using lo hi sum vs(2) vs(3) vs(4) by (rule proportion_bounds)
    moreover have "label_share ys train v = real tr / real n_train"
      unfolding label_share_def P_def [symmetric] tr_def [symmetric] ltr ..
    moreover have "label_share ys test v = real te / real n_test"
      unfolding label_share_def P_def [symmetric] te_def [symmetric] lte ..
    ultimately show ?thesis
      unfolding whole ltr lte by (simp only:)
  qed
  from vs(1) lte have "length test = nat \<lceil>0.2 * real (length ys)\<rceil>"
    by (simp add: n_def)
  with lsum M disj share show ?thesis
    unfolding n_def by blast
qed

lemma split_5_5:
  "split_indices counting_rng (NumCol labels_5_5) = Inr ([3, 5, 7, 9, 2, 4, 6, 8], [1, 0])"
  unfolding labels_5_5_def by code_simp

text \<open>
  C5 (as amended). The splitter puts \<open>\<lceil>0.2 n\<rceil>\<close> of the \<open>n\<close> rows into the test partition
  and the others into the training partition: the two sizes add up to \<open>n\<close>, every
  row is in exactly one of the two partitions, and no row is in both. For every label
  value, its proportion in the training partition and in the test partition differs
  from its proportion in the whole table by at most one row of that partition, that is
  by at most \<open>1 / size\<close>; a partition of at least 100 rows is therefore within one
  percent. This holds for every generator that returns choices and permutations.
\<close>

theorem stratified_split:
  assumes g: "valid_rng g" and res: "split_indices g (NumCol ys) = Inr (train, test)"
  shows "length test = nat \<lceil>0.2 * real (length ys)\<rceil>
       \<and> length train + length test = length ys
       \<and> mset train + mset test = mset [0..<length ys]
       \<and> set train \<inter> set test = {}
       \<and> (\<forall>v. \<bar>label_share ys train v - label_share ys [0..<length ys] v\<bar>
                \<le> 1 / real (length train))
       \<and> (\<forall>v. \<bar>label_share ys test v - label_share ys [0..<length ys] v\<bar>
                \<le> 1 / real (length test))
       \<and> (100 \<le> length train \<longrightarrow>
            (\<forall>v. \<bar>label_share ys train v - label_share ys [0..<length ys] v\<bar> \<le> 1 / 100))
       \<and> (100 \<le> length test \<longrightarrow>
            (\<forall>v. \<bar>label_share ys test v - label_share ys [0..<length ys] v\<bar> \<le> 1 / 100))"
proof -
  note spec = split_indices_spec [OF g res]
  have small: "1 / real m \<le> 1 / 100" if "100 \<le> m" for m :: nat
    using that by (simp add: field_simps)
  from spec have tr: "\<forall>v. \<bar>label_share ys train v - label_share ys [0..<length ys] v\<bar>
                \<le> 1 / real (length train)"
    and te: "\<forall>v. \<bar>label_share ys test v - label_share ys [0..<length ys] v\<bar>
                \<le> 1 / real (length test)"
    by blast+
  have "100 \<le> length train \<longrightarrow>
      (\<forall>v. \<bar>label_share ys train v - label_share ys [0..<length ys] v\<bar> \<le> 1 / 100)"
    using tr small [of "length train"] by (meson order_trans)
  moreover have "100 \<le> length test \<longrightarrow>
      (\<forall>v. \<bar>label_share ys test v - label_share ys [0..<length ys] v\<bar> \<le> 1 / 100)"
    using te small [of "length test"] by (meson order_trans)
  ultimately show ?thesis
    using spec by blast
qed

theorem stratified_split_witness:
  "valid_rng counting_rng
   \<and> split_indices counting_rng (NumCol labels_5_5) = Inr ([3, 5, 7, 9, 2, 4, 6, 8], [1, 0])
   \<and> length [1, 0::nat] = nat \<lceil>0.2 * real (length labels_5_5)\<rceil>
   \<and> length [3, 5, 7, 9, 2, 4, 6, 8::nat] + length [1, 0::nat] = length labels_5_5
   \<and> mset [3, 5, 7, 9, 2, 4, 6, 8] + mset [1, 0] = mset [0..<length labels_5_5]
   \<and> set [3, 5, 7, 9, 2, 4, 6, 8] \<inter> set [1, 0::nat] = {}
   \<and> (\<forall>v. \<bar>label_share labels_5_5 [3, 5, 7, 9, 2, 4, 6, 8] v
              - label_share labels_5_5 [0..<length labels_5_5] v\<bar>
            \<le> 1 / real (length [3, 5, 7, 9, 2, 4, 6, 8::nat]))
   \<and> (\<forall>v. \<bar>label_share labels_5_5 [1, 0] v
              - label_share labels_5_5 [0..<length labels_5_5] v\<bar>
            \<le> 1 / real (length [1, 0::nat]))
   \<and> \<not> 100 \<le> length [1, 0::nat]"
proof -
  have "\<not> 100 \<le> length [1, 0::nat]"
    by simp
  with stratified_split [OF valid_counting_rng split_5_5] valid_counting_rng split_5_5
  show ?thesis
    by blast
qed

lemma split_7_3:
  "split_indices counting_rng (NumCol labels_7_3) = Inr ([4, 7, 2, 3, 5, 6, 8, 9], [1, 0])"
  unfolding labels_7_3_def by code_simp

lemma share_7_3:
  "label_share labels_7_3 [0..<length labels_7_3] (Finite 1) = 3 / 10"
  "label_share labels_7_3 [1, 0] (Finite 1) = 1 / 2"
  "label_share labels_7_3 [4, 7, 2, 3, 5, 6, 8, 9] (Finite 1) = 1 / 4"
  by (simp_all add: label_share_def labels_7_3_def upt_rec)

text \<open>
  The claim as first stated fails on a small table: of ten customers with three
  churners, two rows go to the test partition, one of them a churner, so the
  proportion of churners is 1/2 in the test partition and 1/4 in the training
  partition, against 3/10 in the table.
\<close>

theorem stratified_split_counterexample:
  "split_indices counting_rng (NumCol labels_7_3) = Inr ([4, 7, 2, 3, 5, 6, 8, 9], [1, 0])
   \<and> \<bar>label_share labels_7_3 [1, 0] (Finite 1)
        - label_share labels_7_3 [0..<length labels_7_3] (Finite 1)\<bar> > 1 / 100
   \<and> \<bar>label_share labels_7_3 [4, 7, 2, 3, 5, 6, 8, 9] (Finite 1)
        - label_share labels_7_3 [0..<length labels_7_3] (Finite 1)\<bar> > 1 / 100"
  unfolding share_7_3 by (simp add: split_7_3)

text \<open>
  That does not depend on the generator: a test partition of two rows cannot come
  within one percent of 3/10.
\<close>

lemma test_share_off_any_generator:
  assumes g: "valid_rng g" and res: "split_indices g (NumCol labels_7_3) = Inr (train, test)"
  shows "\<bar>label_share labels_7_3 test (Finite 1)
           - label_share labels_7_3 [0..<length labels_7_3] (Finite 1)\<bar> > 1 / 100"
proof -
  from split_indices_spec [OF g res] have "length test = nat \<lceil>0.2 * real (length labels_7_3)\<rceil>"
    by blast
  then have two: "length test = 2"
    by (simp add: labels_7_3_def)
  define c where "c = length (filter (\<lambda>j. labels_7_3 ! j = Some (Finite 1)) test)"
  have "label_share labels_7_3 test (Finite 1) = real c / 2"
    by (simp add: label_share_def c_def two)
  moreover have "\<bar>real c / 2 - 3 / 10\<bar> > 1 / 100"
  proof (cases "c = 0")
    case True
    then show ?thesis by simp
  next
    case False
    then have "1 \<le> real c"
      by simp
    then show ?thesis
      by simp
  qed
  ultimately show ?thesis
    unfolding share_7_3 by (simp only:)
qed

end
